theory Spec2Isabelle
  imports Main "HOL-Library.Multiset"
begin

section \<open>Task management API: the data model of main.py\<close>

text \<open>
  The service of \<^verbatim>\<open>src/main.py\<close> keeps two tables, \<^verbatim>\<open>users\<close> and \<^verbatim>\<open>tasks\<close>, behind
  an ORM session. Each request handler is embedded as a function from the committed
  store to either an error (the store is then unchanged: an \<^verbatim>\<open>HTTPException\<close> is raised
  before any write, and an error of the store at \<^verbatim>\<open>db.commit()\<close> rolls the transaction back)
  or a result together with the store after the commit.

  The store itself is outside the source; what the source fixes of it is modelled as follows.
  A table is the list of its rows in insertion order. No query of the source has an
  \<^verbatim>\<open>ORDER BY\<close>, so the order in which \<^verbatim>\<open>.all()\<close> returns the rows of a query is the store's
  choice: the handlers that return lists take it as the argument \<open>scan\<close>, which rearranges
  the rows of the query before \<^verbatim>\<open>OFFSET\<close> and \<^verbatim>\<open>LIMIT\<close> apply. \<^verbatim>\<open>.first()\<close> is used only
  where the order cannot matter: on a filter by primary key, and to test whether any row
  matches. A \<^verbatim>\<open>datetime\<close> is an integer (a count of clock ticks); SQL equality on
  strings is equality of the strings. The constraints the column declarations give the
  store (primary key with auto-increment, \<^verbatim>\<open>unique=True\<close>, \<^verbatim>\<open>nullable=False\<close>,
  \<^verbatim>\<open>ForeignKey\<close>) are checked by the row operations below and raise \<^verbatim>\<open>IntegrityError\<close>.
  The length limits of the string columns are not modelled. Request bodies are taken after
  validation: every field has the type its schema declares.
\<close>

type_synonym datetime = int

text \<open>Rows of \<^verbatim>\<open>class User(Base)\<close> and \<^verbatim>\<open>class Task(Base)\<close>. A nullable column holds an option.\<close>

record User =
  User_id :: int
  User_username :: string
  User_email :: string
  User_full_name :: string
  User_created_at :: datetime
  User_is_active :: "bool option"

record Task =
  Task_id :: int
  Task_title :: string
  Task_description :: "string option"
  Task_status :: "string option"
  Task_priority :: "string option"
  Task_created_at :: datetime
  Task_updated_at :: datetime
  Task_due_date :: "datetime option"
  Task_owner_id :: int

text \<open>
  A field of a request body is either absent from the request (\<open>Unset\<close>) or provided;
  a provided value of an \<^verbatim>\<open>Optional\<close> field may still be \<^verbatim>\<open>null\<close> (\<open>Provided None\<close>).
  \<^verbatim>\<open>dict(exclude_unset=True)\<close> keeps exactly the provided fields.
\<close>

datatype 'a provided = Unset | Provided 'a

record UserCreate =
  UserCreate_username :: string
  UserCreate_email :: string
  UserCreate_full_name :: string

record UserUpdate =
  UserUpdate_username :: "string option provided"
  UserUpdate_email :: "string option provided"
  UserUpdate_full_name :: "string option provided"
  UserUpdate_is_active :: "bool option provided"

record TaskCreate =
  TaskCreate_title :: string
  TaskCreate_description :: "string option provided"
  TaskCreate_status :: "string option provided"
  TaskCreate_priority :: "string option provided"
  TaskCreate_due_date :: "datetime option provided"
  TaskCreate_owner_id :: int

record TaskUpdate =
  TaskUpdate_title :: "string option provided"
  TaskUpdate_description :: "string option provided"
  TaskUpdate_status :: "string option provided"
  TaskUpdate_priority :: "string option provided"
  TaskUpdate_due_date :: "datetime option provided"

text \<open>
  \<open>HTTPException status_code detail\<close> is what a handler raises itself; the other two are
  raised by the store (a violated constraint; a negative \<^verbatim>\<open>OFFSET\<close> or \<^verbatim>\<open>LIMIT\<close>).
\<close>

datatype error = HTTPException int string | IntegrityError | ProgrammingError

record store =
  users :: "User list"
  tasks :: "Task list"
  users_auto_increment :: int
  tasks_auto_increment :: int

definition empty_store :: store where
  "empty_store = \<lparr>users = [], tasks = [], users_auto_increment = 1, tasks_auto_increment = 1\<rparr>"

section \<open>Queries and row operations of the store\<close>

text \<open>\<^verbatim>\<open>query.first()\<close>: the first row of the result, or \<^verbatim>\<open>None\<close>.\<close>

definition first_row :: "'a list \<Rightarrow> 'a option" where
  "first_row rows = (case rows of [] \<Rightarrow> None | r # _ \<Rightarrow> Some r)"

text \<open>
  \<^verbatim>\<open>query.offset(skip).limit(limit).all()\<close>. The handlers pass \<^verbatim>\<open>skip\<close> and \<^verbatim>\<open>limit\<close> on
  unchecked; the store (MySQL, by the default \<^verbatim>\<open>DATABASE_URL\<close>) refuses a negative one.
\<close>

definition offset_limit :: "int \<Rightarrow> int \<Rightarrow> 'a list \<Rightarrow> error + 'a list" where
  "offset_limit skip limit rows =
     (if skip < 0 \<or> limit < 0 then Inl ProgrammingError
      else Inr (take (nat limit) (drop (nat skip) rows)))"

text \<open>Python truthiness of an \<^verbatim>\<open>Optional[str]\<close> and of an \<^verbatim>\<open>Optional[int]\<close>.\<close>

definition truthy_str :: "string option \<Rightarrow> bool" where
  "truthy_str s = (case s of None \<Rightarrow> False | Some v \<Rightarrow> v \<noteq> [])"

definition truthy_int :: "int option \<Rightarrow> bool" where
  "truthy_int i = (case i of None \<Rightarrow> False | Some v \<Rightarrow> v \<noteq> 0)"

text \<open>The value a pydantic field holds: the provided one, or the declared default.\<close>

definition field_or :: "'a \<Rightarrow> 'a provided \<Rightarrow> 'a" where
  "field_or dflt f = (case f of Unset \<Rightarrow> dflt | Provided v \<Rightarrow> v)"

text \<open>
  On \<^verbatim>\<open>INSERT\<close> the ORM leaves a \<^verbatim>\<open>None\<close> attribute out of the statement, so a column
  with a \<^verbatim>\<open>default=\<close> takes its default.
\<close>

definition column_default :: "'a \<Rightarrow> 'a option \<Rightarrow> 'a option" where
  "column_default dflt v = (case v of None \<Rightarrow> Some dflt | Some x \<Rightarrow> Some x)"

text \<open>
  \<^verbatim>\<open>setattr(row, field, value)\<close> for the fields of \<^verbatim>\<open>update_data\<close>: a nullable column takes
  any provided value; a \<^verbatim>\<open>nullable=False\<close> column refuses \<^verbatim>\<open>None\<close> at the commit.
\<close>

definition set_nullable :: "'a option provided \<Rightarrow> 'a option \<Rightarrow> 'a option" where
  "set_nullable f old = (case f of Unset \<Rightarrow> old | Provided v \<Rightarrow> v)"

definition set_required :: "'a option provided \<Rightarrow> 'a \<Rightarrow> error + 'a" where
  "set_required f old =
     (case f of Unset \<Rightarrow> Inr old
      | Provided None \<Rightarrow> Inl IntegrityError
      | Provided (Some v) \<Rightarrow> Inr v)"

text \<open>\<^verbatim>\<open>db.add(User(**user.dict())); db.commit(); db.refresh(db_user)\<close>.\<close>

definition insert_user :: "datetime \<Rightarrow> UserCreate \<Rightarrow> store \<Rightarrow> error + (User \<times> store)" where
  "insert_user now user db =
     (if \<exists>u \<in> set (users db).
           User_username u = UserCreate_username user \<or> User_email u = UserCreate_email user
      then Inl IntegrityError
      else
        let row = \<lparr>User_id = users_auto_increment db,
                   User_username = UserCreate_username user,
                   User_email = UserCreate_email user,
                   User_full_name = UserCreate_full_name user,
                   User_created_at = now,
                   User_is_active = Some True\<rparr>
        in Inr (row, db\<lparr>users := users db @ [row],
                         users_auto_increment := users_auto_increment db + 1\<rparr>))"

text \<open>The \<^verbatim>\<open>UPDATE\<close> of one user row at \<^verbatim>\<open>db.commit()\<close>, then \<^verbatim>\<open>db.refresh(db_user)\<close>.\<close>

definition update_user_row :: "User \<Rightarrow> UserUpdate \<Rightarrow> store \<Rightarrow> error + (User \<times> store)" where
  "update_user_row db_user update_data db =
     (case set_required (UserUpdate_username update_data) (User_username db_user) of
        Inl e \<Rightarrow> Inl e
      | Inr un \<Rightarrow>
     (case set_required (UserUpdate_email update_data) (User_email db_user) of
        Inl e \<Rightarrow> Inl e
      | Inr em \<Rightarrow>
     (case set_required (UserUpdate_full_name update_data) (User_full_name db_user) of
        Inl e \<Rightarrow> Inl e
      | Inr fn \<Rightarrow>
        if (UserUpdate_username update_data \<noteq> Unset \<and>
              (\<exists>u \<in> set (users db). User_id u \<noteq> User_id db_user \<and> User_username u = un))
           \<or> (UserUpdate_email update_data \<noteq> Unset \<and>
              (\<exists>u \<in> set (users db). User_id u \<noteq> User_id db_user \<and> User_email u = em))
        then Inl IntegrityError
        else
          let row = db_user\<lparr>User_username := un, User_email := em, User_full_name := fn,
                       User_is_active :=
                         set_nullable (UserUpdate_is_active update_data) (User_is_active db_user)\<rparr>
          in Inr (row,
                  db\<lparr>users := map (\<lambda>u. if User_id u = User_id db_user then row else u)
                                    (users db)\<rparr>))))"

text \<open>\<^verbatim>\<open>db.query(Task).filter(...).delete()\<close>.\<close>

definition delete_tasks_where :: "(Task \<Rightarrow> bool) \<Rightarrow> store \<Rightarrow> store" where
  "delete_tasks_where P db = db\<lparr>tasks := filter (\<lambda>t. \<not> P t) (tasks db)\<rparr>"

text \<open>\<^verbatim>\<open>db.delete(db_user); db.commit()\<close>: refused while a task still references the user.\<close>

definition delete_user_row :: "User \<Rightarrow> store \<Rightarrow> error + store" where
  "delete_user_row db_user db =
     (if \<exists>t \<in> set (tasks db). Task_owner_id t = User_id db_user then Inl IntegrityError
      else Inr (db\<lparr>users := filter (\<lambda>u. User_id u \<noteq> User_id db_user) (users db)\<rparr>))"

text \<open>
  \<^verbatim>\<open>db.add(Task(**task.dict())); db.commit(); db.refresh(db_task)\<close>. The two column
  defaults \<^verbatim>\<open>created_at\<close> and \<^verbatim>\<open>updated_at\<close> each read the clock, in column order.
\<close>

definition insert_task ::
    "datetime \<Rightarrow> datetime \<Rightarrow> TaskCreate \<Rightarrow> store \<Rightarrow> error + (Task \<times> store)" where
  "insert_task now now' task db =
     (if \<not> (\<exists>u \<in> set (users db). User_id u = TaskCreate_owner_id task) then Inl IntegrityError
      else
        let row = \<lparr>Task_id = tasks_auto_increment db,
                   Task_title = TaskCreate_title task,
                   Task_description = field_or None (TaskCreate_description task),
                   Task_status =
                     column_default ''pending'' (field_or (Some ''pending'') (TaskCreate_status task)),
                   Task_priority =
                     column_default ''medium'' (field_or (Some ''medium'') (TaskCreate_priority task)),
                   Task_created_at = now,
                   Task_updated_at = now',
                   Task_due_date = field_or None (TaskCreate_due_date task),
                   Task_owner_id = TaskCreate_owner_id task\<rparr>
        in Inr (row, db\<lparr>tasks := tasks db @ [row],
                         tasks_auto_increment := tasks_auto_increment db + 1\<rparr>))"

text \<open>The \<^verbatim>\<open>UPDATE\<close> of one task row at \<^verbatim>\<open>db.commit()\<close>, then \<^verbatim>\<open>db.refresh(db_task)\<close>.\<close>

definition update_task_row ::
    "datetime \<Rightarrow> Task \<Rightarrow> TaskUpdate \<Rightarrow> store \<Rightarrow> error + (Task \<times> store)" where
  "update_task_row now db_task update_data db =
     (case set_required (TaskUpdate_title update_data) (Task_title db_task) of
        Inl e \<Rightarrow> Inl e
      | Inr ti \<Rightarrow>
          let row = db_task\<lparr>Task_title := ti,
                       Task_description :=
                         set_nullable (TaskUpdate_description update_data) (Task_description db_task),
                       Task_status :=
                         set_nullable (TaskUpdate_status update_data) (Task_status db_task),
                       Task_priority :=
                         set_nullable (TaskUpdate_priority update_data) (Task_priority db_task),
                       Task_due_date :=
                         set_nullable (TaskUpdate_due_date update_data) (Task_due_date db_task),
                       Task_updated_at := now\<rparr>
          in Inr (row,
                  db\<lparr>tasks := map (\<lambda>t. if Task_id t = Task_id db_task then row else t)
                                    (tasks db)\<rparr>))"

text \<open>\<^verbatim>\<open>db.delete(db_task); db.commit()\<close>.\<close>

definition delete_task_row :: "Task \<Rightarrow> store \<Rightarrow> store" where
  "delete_task_row db_task db =
     db\<lparr>tasks := filter (\<lambda>t. Task_id t \<noteq> Task_id db_task) (tasks db)\<rparr>"

section \<open>The request handlers\<close>

definition create_user :: "datetime \<Rightarrow> UserCreate \<Rightarrow> store \<Rightarrow> error + (User \<times> store)" where
  "create_user now user db =
     (case first_row (filter (\<lambda>u. User_username u = UserCreate_username user
                                   \<or> User_email u = UserCreate_email user) (users db)) of
        Some db_user \<Rightarrow> Inl (HTTPException 400 ''Username or email already registered'')
      | None \<Rightarrow> insert_user now user db)"


definition read_user :: "int \<Rightarrow> store \<Rightarrow> error + User" where
  "read_user user_id db =
     (case first_row (filter (\<lambda>u. User_id u = user_id) (users db)) of
        None \<Rightarrow> Inl (HTTPException 404 ''User not found'')
      | Some user \<Rightarrow> Inr user)"

definition update_user :: "int \<Rightarrow> UserUpdate \<Rightarrow> store \<Rightarrow> error + (User \<times> store)" where
  "update_user user_id user_update db =
     (case first_row (filter (\<lambda>u. User_id u = user_id) (users db)) of
        None \<Rightarrow> Inl (HTTPException 404 ''User not found'')
      | Some db_user \<Rightarrow> update_user_row db_user user_update db)"

definition delete_user :: "int \<Rightarrow> store \<Rightarrow> error + (string \<times> store)" where
  "delete_user user_id db =
     (case first_row (filter (\<lambda>u. User_id u = user_id) (users db)) of
        None \<Rightarrow> Inl (HTTPException 404 ''User not found'')
      | Some db_user \<Rightarrow>
          (case delete_user_row db_user
                  (delete_tasks_where (\<lambda>t. Task_owner_id t = user_id) db) of
             Inl e \<Rightarrow> Inl e
           | Inr db' \<Rightarrow> Inr (''User deleted successfully'', db')))"

definition create_task ::
    "datetime \<Rightarrow> datetime \<Rightarrow> TaskCreate \<Rightarrow> store \<Rightarrow> error + (Task \<times> store)" where
  "create_task now now' task db =
     (case first_row (filter (\<lambda>u. User_id u = TaskCreate_owner_id task) (users db)) of
        None \<Rightarrow> Inl (HTTPException 404 ''User not found'')
      | Some user \<Rightarrow> insert_task now now' task db)"

definition read_tasks ::
    "(Task list \<Rightarrow> Task list) \<Rightarrow> int \<Rightarrow> int \<Rightarrow> string option \<Rightarrow> string option
      \<Rightarrow> int option \<Rightarrow> store \<Rightarrow> error + Task list" where
  "read_tasks scan skip limit status priority owner_id db =
     (let query = tasks db;
          query = (if truthy_str status
                   then filter (\<lambda>t. Task_status t = status) query else query);
          query = (if truthy_str priority
                   then filter (\<lambda>t. Task_priority t = priority) query else query);
          query = (if truthy_int owner_id
                   then filter (\<lambda>t. Some (Task_owner_id t) = owner_id) query else query)
      in offset_limit skip limit (scan query))"

definition read_task :: "int \<Rightarrow> store \<Rightarrow> error + Task" where
  "read_task task_id db =
     (case first_row (filter (\<lambda>t. Task_id t = task_id) (tasks db)) of
        None \<Rightarrow> Inl (HTTPException 404 ''Task not found'')
      | Some task \<Rightarrow> Inr task)"

definition update_task ::
    "datetime \<Rightarrow> int \<Rightarrow> TaskUpdate \<Rightarrow> store \<Rightarrow> error + (Task \<times> store)" where
  "update_task now task_id task_update db =
     (case first_row (filter (\<lambda>t. Task_id t = task_id) (tasks db)) of
        None \<Rightarrow> Inl (HTTPException 404 ''Task not found'')
      | Some db_task \<Rightarrow> update_task_row now db_task task_update db)"

definition delete_task :: "int \<Rightarrow> store \<Rightarrow> error + (string \<times> store)" where
  "delete_task task_id db =
     (case first_row (filter (\<lambda>t. Task_id t = task_id) (tasks db)) of
        None \<Rightarrow> Inl (HTTPException 404 ''Task not found'')
      | Some db_task \<Rightarrow> Inr (''Task deleted successfully'', delete_task_row db_task db))"

definition read_user_tasks ::
    "(Task list \<Rightarrow> Task list) \<Rightarrow> int \<Rightarrow> store \<Rightarrow> error + Task list" where
  "read_user_tasks scan user_id db =
     (case first_row (filter (\<lambda>u. User_id u = user_id) (users db)) of
        None \<Rightarrow> Inl (HTTPException 404 ''User not found'')
      | Some user \<Rightarrow> Inr (scan (filter (\<lambda>t. Task_owner_id t = user_id) (tasks db))))"

record Stats =
  total_users :: int
  total_tasks :: int
  pending_tasks :: int
  completed_tasks :: int

definition get_stats :: "store \<Rightarrow> Stats" where
  "get_stats db =
     \<lparr>total_users = int (length (users db)),
      total_tasks = int (length (tasks db)),
      pending_tasks = int (length (filter (\<lambda>t. Task_status t = Some ''pending'') (tasks db))),
      completed_tasks =
        int (length (filter (\<lambda>t. Task_status t = Some ''completed'') (tasks db)))\<rparr>"

section \<open>Runs of the service\<close>

text \<open>
  The requests that write. \<open>clock k\<close> is the \<open>k\<close>-th reading of \<^verbatim>\<open>datetime.utcnow()\<close> the
  process makes; the world is the committed store and the number of readings made so far.
  \<^verbatim>\<open>create_user\<close> reads the clock once (the default of \<^verbatim>\<open>created_at\<close>), \<^verbatim>\<open>create_task\<close>
  twice and \<^verbatim>\<open>update_task\<close> once. A request that fails leaves the store as it was; refused
  by the handler (an \<^verbatim>\<open>HTTPException\<close>) it has read no clock, refused by the store at the
  commit it has read the clock as a successful one does.
\<close>

datatype request =
    CreateUser UserCreate
  | UpdateUser int UserUpdate
  | DeleteUser int
  | CreateTask TaskCreate
  | UpdateTask int TaskUpdate
  | DeleteTask int

definition after_error :: "error \<Rightarrow> nat \<Rightarrow> nat \<Rightarrow> nat" where
  "after_error e n k =
     (case e of HTTPException status_code detail \<Rightarrow> k
      | IntegrityError \<Rightarrow> k + n
      | ProgrammingError \<Rightarrow> k + n)"

fun step :: "(nat \<Rightarrow> datetime) \<Rightarrow> request \<Rightarrow> store \<times> nat \<Rightarrow> store \<times> nat" where
  "step clock (CreateUser user) (db, k) =
     (case create_user (clock k) user db of
        Inl e \<Rightarrow> (db, after_error e 1 k) | Inr (r, db') \<Rightarrow> (db', Suc k))"
| "step clock (UpdateUser user_id user_update) (db, k) =
     (case update_user user_id user_update db of
        Inl e \<Rightarrow> (db, k) | Inr (r, db') \<Rightarrow> (db', k))"
| "step clock (DeleteUser user_id) (db, k) =
     (case delete_user user_id db of
        Inl e \<Rightarrow> (db, k) | Inr (r, db') \<Rightarrow> (db', k))"
| "step clock (CreateTask task) (db, k) =
     (case create_task (clock k) (clock (Suc k)) task db of
        Inl e \<Rightarrow> (db, after_error e 2 k) | Inr (r, db') \<Rightarrow> (db', Suc (Suc k)))"
| "step clock (UpdateTask task_id task_update) (db, k) =
     (case update_task (clock k) task_id task_update db of
        Inl e \<Rightarrow> (db, after_error e 1 k) | Inr (r, db') \<Rightarrow> (db', Suc k))"
| "step clock (DeleteTask task_id) (db, k) =
     (case delete_task task_id db of
        Inl e \<Rightarrow> (db, k) | Inr (r, db') \<Rightarrow> (db', k))"

fun run :: "(nat \<Rightarrow> datetime) \<Rightarrow> request list \<Rightarrow> store \<times> nat \<Rightarrow> store \<times> nat" where
  "run clock [] w = w"
| "run clock (r # rs) w = run clock rs (step clock r w)"

definition reachable :: "(nat \<Rightarrow> datetime) \<Rightarrow> request list \<Rightarrow> store" where
  "reachable clock rs = fst (run clock rs (empty_store, 0))"

text \<open>
  What every run keeps. Ids are handed out by the two counters, so each table is strictly
  ascending in its id and every id is below the counter. Timestamps come from the clock:
  the users are in the order of their \<^verbatim>\<open>created_at\<close>, no task was updated before it was
  created, and no stored timestamp is later than a reading still to come.
\<close>

definition ids_ascending :: "store \<Rightarrow> bool" where
  "ids_ascending db \<longleftrightarrow>
     sorted_wrt (<) (map User_id (users db))
     \<and> (\<forall>i \<in> set (map User_id (users db)). i < users_auto_increment db)
     \<and> sorted_wrt (<) (map Task_id (tasks db))
     \<and> (\<forall>i \<in> set (map Task_id (tasks db)). i < tasks_auto_increment db)"

definition stamped_before :: "(nat \<Rightarrow> datetime) \<Rightarrow> store \<times> nat \<Rightarrow> bool" where
  "stamped_before clock w \<longleftrightarrow>
     sorted (map User_created_at (users (fst w)))
     \<and> (\<forall>c \<in> set (map User_created_at (users (fst w))). \<forall>m \<ge> snd w. c \<le> clock m)
     \<and> (\<forall>t \<in> set (tasks (fst w)).
           Task_created_at t \<le> Task_updated_at t \<and> (\<forall>m \<ge> snd w. Task_updated_at t \<le> clock m))"

text \<open>
  With a clock whose readings strictly increase, every stored \<^verbatim>\<open>updated_at\<close> is earlier than
  every reading still to come.
\<close>

definition updated_earlier :: "(nat \<Rightarrow> datetime) \<Rightarrow> store \<times> nat \<Rightarrow> bool" where
  "updated_earlier clock w \<longleftrightarrow>
     (\<forall>t \<in> set (tasks (fst w)). \<forall>m \<ge> snd w. Task_updated_at t < clock m)"

section \<open>Example requests and states\<close>

text \<open>
  The scenario of the specification: user \<open>alice\<close> is created first, then the task
  \<open>write_spec\<close> for her, with the clock reading \<open>0, 1, 2, \<dots>\<close>.
\<close>

definition alice :: UserCreate where
  "alice = \<lparr>UserCreate_username = ''alice'', UserCreate_email = ''alice@x.com'',
             UserCreate_full_name = ''Alice A''\<rparr>"

definition bob :: UserCreate where
  "bob = \<lparr>UserCreate_username = ''bob'', UserCreate_email = ''bob@x.com'',
           UserCreate_full_name = ''Bob B''\<rparr>"

definition write_spec :: TaskCreate where
  "write_spec = \<lparr>TaskCreate_title = ''Write spec'', TaskCreate_description = Unset,
     TaskCreate_status = Unset, TaskCreate_priority = Unset, TaskCreate_due_date = Unset,
     TaskCreate_owner_id = 1\<rparr>"

definition ticks :: "nat \<Rightarrow> datetime" where
  "ticks k = int k"

definition alice_row :: User where
  "alice_row = \<lparr>User_id = 1, User_username = ''alice'', User_email = ''alice@x.com'',
                 User_full_name = ''Alice A'', User_created_at = 0, User_is_active = Some True\<rparr>"

definition write_spec_row :: Task where
  "write_spec_row = \<lparr>Task_id = 1, Task_title = ''Write spec'', Task_description = None,
     Task_status = Some ''pending'', Task_priority = Some ''medium'', Task_created_at = 1,
     Task_updated_at = 2, Task_due_date = None, Task_owner_id = 1\<rparr>"

definition alice_store :: store where
  "alice_store = \<lparr>users = [alice_row], tasks = [write_spec_row],
                   users_auto_increment = 2, tasks_auto_increment = 2\<rparr>"

definition review_task :: TaskCreate where
  "review_task = \<lparr>TaskCreate_title = ''Review'', TaskCreate_description = Provided (Some ''second pass''),
     TaskCreate_status = Provided (Some ''in_progress''), TaskCreate_priority = Unset,
     TaskCreate_due_date = Unset, TaskCreate_owner_id = 1\<rparr>"

definition bob_row :: User where
  "bob_row = \<lparr>User_id = 2, User_username = ''bob'', User_email = ''bob@x.com'',
               User_full_name = ''Bob B'', User_created_at = 3, User_is_active = Some True\<rparr>"

definition two_users :: store where
  "two_users = \<lparr>users = [alice_row, bob_row], tasks = [write_spec_row],
                 users_auto_increment = 3, tasks_auto_increment = 2\<rparr>"

definition take_alice_name :: UserUpdate where
  "take_alice_name = \<lparr>UserUpdate_username = Provided (Some ''alice''), UserUpdate_email = Unset,
                       UserUpdate_full_name = Unset, UserUpdate_is_active = Unset\<rparr>"

definition deactivate :: UserUpdate where
  "deactivate = \<lparr>UserUpdate_username = Unset, UserUpdate_email = Unset,
                  UserUpdate_full_name = Unset, UserUpdate_is_active = Provided (Some False)\<rparr>"

definition complete :: TaskUpdate where
  "complete = \<lparr>TaskUpdate_title = Unset, TaskUpdate_description = Unset,
                TaskUpdate_status = Provided (Some ''completed''), TaskUpdate_priority = Unset,
                TaskUpdate_due_date = Unset\<rparr>"

definition review_row :: Task where
  "review_row = \<lparr>Task_id = 2, Task_title = ''Review'', Task_description = Some ''second pass'',
     Task_status = Some ''completed'', Task_priority = Some ''high'', Task_created_at = 4,
     Task_updated_at = 8, Task_due_date = None, Task_owner_id = 1\<rparr>"

definition deploy_row :: Task where
  "deploy_row = \<lparr>Task_id = 3, Task_title = ''Deploy'', Task_description = None,
     Task_status = Some ''completed'', Task_priority = Some ''medium'', Task_created_at = 6,
     Task_updated_at = 7, Task_due_date = Some 20, Task_owner_id = 2\<rparr>"

definition three_tasks :: store where
  "three_tasks = \<lparr>users = [alice_row, bob_row], tasks = [write_spec_row, review_row, deploy_row],
                   users_auto_increment = 3, tasks_auto_increment = 4\<rparr>"

definition rename_all :: UserUpdate where
  "rename_all = \<lparr>UserUpdate_username = Provided (Some ''robert''),
                  UserUpdate_email = Provided (Some ''robert@x.com''),
                  UserUpdate_full_name = Provided (Some ''Robert B''),
                  UserUpdate_is_active = Provided None\<rparr>"

definition rewrite_all :: TaskUpdate where
  "rewrite_all = \<lparr>TaskUpdate_title = Provided (Some ''Ship''),
                   TaskUpdate_description = Provided (Some ''to production''),
                   TaskUpdate_status = Provided (Some ''in_progress''),
                   TaskUpdate_priority = Provided (Some ''low''),
                   TaskUpdate_due_date = Provided None\<rparr>"

text \<open>
  Two stores' ways of returning the rows of a query: as they were inserted, and the newest
  first.
\<close>

definition insertion_order :: "'a list \<Rightarrow> 'a list" where
  "insertion_order rows = rows"

definition newest_first :: "'a list \<Rightarrow> 'a list" where
  "newest_first rows = rev rows"

text \<open>
  Two clocks that are not \<open>ticks\<close>: one of coarse resolution, whose reading changes only
  with every fourth call, and one that is set back seven ticks after its third reading.
\<close>

definition coarse :: "nat \<Rightarrow> datetime" where
  "coarse k = int (k div 4)"

definition set_back :: "nat \<Rightarrow> datetime" where
  "set_back k = (if k < 3 then 10 + int k else 3 + int k)"

definition coarse_task :: Task where
  "coarse_task = \<lparr>Task_id = 1, Task_title = ''Write spec'', Task_description = None,
     Task_status = Some ''pending'', Task_priority = Some ''medium'', Task_created_at = 0,
     Task_updated_at = 0, Task_due_date = None, Task_owner_id = 1\<rparr>"

definition coarse_store :: store where
  "coarse_store = \<lparr>users = [alice_row], tasks = [coarse_task],
                    users_auto_increment = 2, tasks_auto_increment = 2\<rparr>"

definition set_back_task :: Task where
  "set_back_task = \<lparr>Task_id = 1, Task_title = ''Write spec'', Task_description = None,
     Task_status = Some ''completed'', Task_priority = Some ''medium'', Task_created_at = 11,
     Task_updated_at = 6, Task_due_date = None, Task_owner_id = 1\<rparr>"

definition no_user_fields :: UserUpdate where
  "no_user_fields = \<lparr>UserUpdate_username = Unset, UserUpdate_email = Unset,
                      UserUpdate_full_name = Unset, UserUpdate_is_active = Unset\<rparr>"

definition no_task_fields :: TaskUpdate where
  "no_task_fields = \<lparr>TaskUpdate_title = Unset, TaskUpdate_description = Unset,
                      TaskUpdate_status = Unset, TaskUpdate_priority = Unset,
                      TaskUpdate_due_date = Unset\<rparr>"

section \<open>Basic facts about lists and queries\<close>

lemmas example_defs = alice_def bob_def write_spec_def ticks_def alice_row_def write_spec_row_def
  alice_store_def review_task_def bob_row_def two_users_def complete_def review_row_def
  deploy_row_def three_tasks_def

lemma after_error_simps [simp]:
  "after_error (HTTPException status_code detail) n k = k"
  "after_error IntegrityError n k = k + n"
  "after_error ProgrammingError n k = k + n"
  by (simp_all add: after_error_def)

lemma after_error_ge: "k \<le> after_error e n k"
  by (cases e) simp_all

lemma first_row_simps [simp]: "first_row [] = None" "first_row (x # xs) = Some x"
  by (simp_all add: first_row_def)

lemma first_row_filter_None: "first_row (filter P xs) = None \<longleftrightarrow> (\<forall>x\<in>set xs. \<not> P x)"
  by (induction xs) (auto simp: first_row_def)

lemma first_row_filter_Some: "first_row (filter P xs) = Some x \<Longrightarrow> x \<in> set xs \<and> P x"
  by (induction xs) (auto simp: first_row_def split: if_splits)

lemma first_row_filter_map:
  assumes "first_row (filter (\<lambda>x. key x = k) xs) = Some r" and "key r' = k"
  shows "first_row (filter (\<lambda>x. key x = k) (map (\<lambda>x. if key x = key r then r' else x) xs))
           = Some r'"
  using assms by (induction xs) (auto simp: first_row_def split: if_splits)

lemma key_eq_of_distinct:
  assumes "distinct (map key xs)" and "x \<in> set xs" and "y \<in> set xs" and "key x = key y"
  shows "x = y"
  using assms by (meson distinct_map inj_onD)

lemma map_replace_same_key:
  assumes "distinct (map key xs)" and "r \<in> set xs"
  shows "map (\<lambda>x. if key x = key r then r else x) xs = xs"
proof -
  have "\<And>x. x \<in> set xs \<Longrightarrow> key x = key r \<Longrightarrow> x = r"
    using assms by (meson distinct_map inj_onD)
  then show ?thesis
    by (intro map_idI) auto
qed

lemma map_key_replace:
  assumes "key r' = key r"
  shows "map key (map (\<lambda>x. if key x = key r then r' else x) xs) = map key xs"
  using assms by (induction xs) auto

lemma map_col_replace:
  assumes "distinct (map key xs)" and "r \<in> set xs" and "col r' = col r"
  shows "map col (map (\<lambda>x. if key x = key r then r' else x) xs) = map col xs"
proof -
  have "\<And>x. x \<in> set xs \<Longrightarrow> key x = key r \<Longrightarrow> x = r"
    using assms(1,2) by (meson distinct_map inj_onD)
  then show ?thesis
    using assms(3) by (auto simp: comp_def)
qed

lemma sorted_wrt_less_distinct: "sorted_wrt (<) (xs :: int list) \<Longrightarrow> distinct xs"
  by (simp add: strict_sorted_iff)

lemma sorted_wrt_map_filter:
  "sorted_wrt R (map f xs) \<Longrightarrow> sorted_wrt R (map f (filter P xs))"
  by (induction xs) auto

lemma offset_limit_nonneg:
  "0 \<le> skip \<Longrightarrow> 0 \<le> limit \<Longrightarrow>
     offset_limit skip limit rows = Inr (take (nat limit) (drop (nat skip) rows))"
  by (simp add: offset_limit_def)

section \<open>The handlers, outcome by outcome\<close>

text \<open>
  For each handler, when it fails and with what, and what it returns and stores when it
  succeeds. The claims below are put together from these.
\<close>

lemma read_user_Inr:
  "read_user user_id db = Inr u \<longleftrightarrow>
     first_row (filter (\<lambda>x. User_id x = user_id) (users db)) = Some u"
  by (simp add: read_user_def split: option.splits)

lemma read_user_Inl:
  "read_user user_id db = Inl e \<longleftrightarrow>
     (\<forall>u \<in> set (users db). User_id u \<noteq> user_id) \<and> e = HTTPException 404 ''User not found''"
  by (auto simp: read_user_def first_row_filter_None split: option.splits
      dest: first_row_filter_Some)

lemma read_task_Inr:
  "read_task task_id db = Inr t \<longleftrightarrow>
     first_row (filter (\<lambda>x. Task_id x = task_id) (tasks db)) = Some t"
  by (simp add: read_task_def split: option.splits)

lemma read_task_Inl:
  "read_task task_id db = Inl e \<longleftrightarrow>
     (\<forall>t \<in> set (tasks db). Task_id t \<noteq> task_id) \<and> e = HTTPException 404 ''Task not found''"
  by (auto simp: read_task_def first_row_filter_None split: option.splits
      dest: first_row_filter_Some)

lemma read_user_in_set:
  "read_user user_id db = Inr u \<Longrightarrow> u \<in> set (users db) \<and> User_id u = user_id"
  by (auto simp: read_user_Inr dest: first_row_filter_Some)

lemma read_task_in_set:
  "read_task task_id db = Inr t \<Longrightarrow> t \<in> set (tasks db) \<and> Task_id t = task_id"
  by (auto simp: read_task_Inr dest: first_row_filter_Some)

lemma create_user_Inl:
  "create_user now user db = Inl e \<longleftrightarrow>
     (\<exists>u \<in> set (users db). User_username u = UserCreate_username user
                             \<or> User_email u = UserCreate_email user)
     \<and> e = HTTPException 400 ''Username or email already registered''"
  by (auto simp: create_user_def insert_user_def first_row_filter_None Let_def
      split: option.splits dest: first_row_filter_Some)

lemma create_user_Inr:
  "create_user now user db = Inr (row, db') \<longleftrightarrow>
     \<not> (\<exists>u \<in> set (users db). User_username u = UserCreate_username user
                               \<or> User_email u = UserCreate_email user)
     \<and> row = \<lparr>User_id = users_auto_increment db,
                 User_username = UserCreate_username user,
                 User_email = UserCreate_email user,
                 User_full_name = UserCreate_full_name user,
                 User_created_at = now,
                 User_is_active = Some True\<rparr>
     \<and> db' = db\<lparr>users := users db @ [row],
                  users_auto_increment := users_auto_increment db + 1\<rparr>"
  by (auto simp: create_user_def insert_user_def first_row_filter_None Let_def
      split: option.splits dest: first_row_filter_Some)

lemma create_task_Inl:
  "create_task now now' task db = Inl e \<longleftrightarrow>
     \<not> (\<exists>u \<in> set (users db). User_id u = TaskCreate_owner_id task)
     \<and> e = HTTPException 404 ''User not found''"
  by (auto simp: create_task_def insert_task_def first_row_filter_None Let_def
      split: option.splits dest: first_row_filter_Some)

lemma create_task_Inr:
  "create_task now now' task db = Inr (row, db') \<longleftrightarrow>
     (\<exists>u \<in> set (users db). User_id u = TaskCreate_owner_id task)
     \<and> row = \<lparr>Task_id = tasks_auto_increment db,
                Task_title = TaskCreate_title task,
                Task_description =
                  (case TaskCreate_description task of Unset \<Rightarrow> None | Provided v \<Rightarrow> v),
                Task_status =
                  (case TaskCreate_status task of
                     Unset \<Rightarrow> Some ''pending''
                   | Provided None \<Rightarrow> Some ''pending''
                   | Provided (Some s) \<Rightarrow> Some s),
                Task_priority =
                  (case TaskCreate_priority task of
                     Unset \<Rightarrow> Some ''medium''
                   | Provided None \<Rightarrow> Some ''medium''
                   | Provided (Some s) \<Rightarrow> Some s),
                Task_created_at = now,
                Task_updated_at = now',
                Task_due_date =
                  (case TaskCreate_due_date task of Unset \<Rightarrow> None | Provided v \<Rightarrow> v),
                Task_owner_id = TaskCreate_owner_id task\<rparr>
     \<and> db' = db\<lparr>tasks := tasks db @ [row],
                  tasks_auto_increment := tasks_auto_increment db + 1\<rparr>"
  by (auto simp: create_task_def insert_task_def first_row_filter_None Let_def field_or_def
        column_default_def
      split: option.splits provided.splits dest: first_row_filter_Some)

lemma delete_user_absent:
  assumes "\<forall>u \<in> set (users db). User_id u \<noteq> user_id"
  shows "delete_user user_id db = Inl (HTTPException 404 ''User not found'')"
  using assms by (simp add: delete_user_def first_row_filter_None[THEN iffD2])

lemma delete_user_present:
  assumes "read_user user_id db = Inr u"
  shows "delete_user user_id db =
           Inr (''User deleted successfully'',
                db\<lparr>tasks := filter (\<lambda>t. Task_owner_id t \<noteq> user_id) (tasks db),
                   users := filter (\<lambda>u. User_id u \<noteq> user_id) (users db)\<rparr>)"
proof -
  from assms have f: "first_row (filter (\<lambda>x. User_id x = user_id) (users db)) = Some u"
    by (simp add: read_user_Inr)
  then have uid: "User_id u = user_id"
    by (auto dest: first_row_filter_Some)
  show ?thesis
    by (simp add: delete_user_def f delete_user_row_def delete_tasks_where_def uid)
qed

lemma delete_user_Inr:
  assumes "delete_user user_id db = Inr (r, db')"
  shows "db' = db\<lparr>tasks := filter (\<lambda>t. Task_owner_id t \<noteq> user_id) (tasks db),
                   users := filter (\<lambda>x. User_id x \<noteq> user_id) (users db)\<rparr>"
proof (cases "read_user user_id db")
  case (Inl e)
  then have "delete_user user_id db = Inl (HTTPException 404 ''User not found'')"
    by (simp add: read_user_Inl delete_user_absent)
  with assms show ?thesis by simp
next
  case (Inr u)
  from delete_user_present[OF Inr] assms show ?thesis by simp
qed

lemma delete_task_Inr:
  assumes "delete_task task_id db = Inr (r, db')"
  shows "db' = db\<lparr>tasks := filter (\<lambda>t. Task_id t \<noteq> task_id) (tasks db)\<rparr>"
  using assms
  by (auto simp: delete_task_def delete_task_row_def split: option.splits
      dest!: first_row_filter_Some)

lemma set_required_cases:
  "set_required f old = Inl e \<Longrightarrow> e = IntegrityError \<and> f = Provided None"
  "set_required f old = Inr v \<Longrightarrow> (f = Unset \<and> v = old) \<or> f = Provided (Some v)"
  by (auto simp: set_required_def split: provided.splits option.splits)

lemma set_required_Inr:
  "set_required f old = Inr v \<longleftrightarrow> (f = Unset \<and> v = old) \<or> f = Provided (Some v)"
  by (auto simp: set_required_def split: provided.splits option.splits)

lemma update_user_row_error:
  "update_user_row db_user uu db = Inl e \<Longrightarrow> e = IntegrityError"
  by (auto simp: update_user_row_def Let_def split: sum.splits if_splits dest: set_required_cases)

lemma update_user_present:
  "read_user user_id db = Inr u \<Longrightarrow> update_user user_id uu db = update_user_row u uu db"
  by (simp add: update_user_def read_user_Inr)

lemma update_task_present:
  "read_task task_id db = Inr t \<Longrightarrow> update_task now task_id tu db = update_task_row now t tu db"
  by (simp add: update_task_def read_task_Inr)

lemma update_user_Inr_row:
  assumes "update_user user_id uu db = Inr (u', db')"
  obtains u where "read_user user_id db = Inr u" and "update_user_row u uu db = Inr (u', db')"
  using assms by (auto simp: update_user_def read_user_def split: option.splits)

lemma update_task_Inr_row:
  assumes "update_task now task_id tu db = Inr (t', db')"
  obtains t where "read_task task_id db = Inr t" and "update_task_row now t tu db = Inr (t', db')"
  using assms by (auto simp: update_task_def read_task_def split: option.splits)

lemma update_user_row_Inr_eq:
  assumes "update_user_row u uu db = Inr (u', db')"
  shows "\<exists>un em fn.
           set_required (UserUpdate_username uu) (User_username u) = Inr un
         \<and> set_required (UserUpdate_email uu) (User_email u) = Inr em
         \<and> set_required (UserUpdate_full_name uu) (User_full_name u) = Inr fn
         \<and> u' = u\<lparr>User_username := un, User_email := em, User_full_name := fn,
                   User_is_active := set_nullable (UserUpdate_is_active uu) (User_is_active u)\<rparr>
         \<and> db' = db\<lparr>users := map (\<lambda>x. if User_id x = User_id u then u' else x) (users db)\<rparr>"
  using assms unfolding update_user_row_def Let_def
  by (clarsimp split: sum.splits if_splits)

lemma update_user_row_Inr:
  assumes "update_user_row u uu db = Inr (u', db')"
  shows "(case UserUpdate_username uu of Unset \<Rightarrow> User_username u' = User_username u
            | Provided v \<Rightarrow> v = Some (User_username u'))"
    and "(case UserUpdate_email uu of Unset \<Rightarrow> User_email u' = User_email u
            | Provided v \<Rightarrow> v = Some (User_email u'))"
    and "(case UserUpdate_full_name uu of Unset \<Rightarrow> User_full_name u' = User_full_name u
            | Provided v \<Rightarrow> v = Some (User_full_name u'))"
    and "(case UserUpdate_is_active uu of Unset \<Rightarrow> User_is_active u' = User_is_active u
            | Provided v \<Rightarrow> User_is_active u' = v)"
    and "User_id u' = User_id u" and "User_created_at u' = User_created_at u"
    and "users db' = map (\<lambda>x. if User_id x = User_id u then u' else x) (users db)"
    and "tasks db' = tasks db"
    and "users_auto_increment db' = users_auto_increment db"
    and "tasks_auto_increment db' = tasks_auto_increment db"
proof -
  from update_user_row_Inr_eq[OF assms] obtain un em fn where
    s: "set_required (UserUpdate_username uu) (User_username u) = Inr un"
       "set_required (UserUpdate_email uu) (User_email u) = Inr em"
       "set_required (UserUpdate_full_name uu) (User_full_name u) = Inr fn"
    and u': "u' = u\<lparr>User_username := un, User_email := em, User_full_name := fn,
                   User_is_active := set_nullable (UserUpdate_is_active uu) (User_is_active u)\<rparr>"
    and db': "db' = db\<lparr>users := map (\<lambda>x. if User_id x = User_id u then u' else x) (users db)\<rparr>"
    by blast
  show "case UserUpdate_username uu of Unset \<Rightarrow> User_username u' = User_username u
            | Provided v \<Rightarrow> v = Some (User_username u')"
    using s(1) by (auto simp: u' set_required_Inr split: provided.splits)
  show "case UserUpdate_email uu of Unset \<Rightarrow> User_email u' = User_email u
            | Provided v \<Rightarrow> v = Some (User_email u')"
    using s(2) by (auto simp: u' set_required_Inr split: provided.splits)
  show "case UserUpdate_full_name uu of Unset \<Rightarrow> User_full_name u' = User_full_name u
            | Provided v \<Rightarrow> v = Some (User_full_name u')"
    using s(3) by (auto simp: u' set_required_Inr split: provided.splits)
  show "case UserUpdate_is_active uu of Unset \<Rightarrow> User_is_active u' = User_is_active u
            | Provided v \<Rightarrow> User_is_active u' = v"
    by (simp add: u' set_nullable_def split: provided.splits)
  show "User_id u' = User_id u" "User_created_at u' = User_created_at u"
    by (simp_all add: u')
  show "users db' = map (\<lambda>x. if User_id x = User_id u then u' else x) (users db)"
    "tasks db' = tasks db" "users_auto_increment db' = users_auto_increment db"
    "tasks_auto_increment db' = tasks_auto_increment db"
    by (simp_all add: db')
qed

lemma update_task_row_Inr_eq:
  assumes "update_task_row now t tu db = Inr (t', db')"
  shows "\<exists>ti.
           set_required (TaskUpdate_title tu) (Task_title t) = Inr ti
         \<and> t' = t\<lparr>Task_title := ti,
                   Task_description := set_nullable (TaskUpdate_description tu) (Task_description t),
                   Task_status := set_nullable (TaskUpdate_status tu) (Task_status t),
                   Task_priority := set_nullable (TaskUpdate_priority tu) (Task_priority t),
                   Task_due_date := set_nullable (TaskUpdate_due_date tu) (Task_due_date t),
                   Task_updated_at := now\<rparr>
         \<and> db' = db\<lparr>tasks := map (\<lambda>x. if Task_id x = Task_id t then t' else x) (tasks db)\<rparr>"
  using assms unfolding update_task_row_def Let_def
  by (clarsimp split: sum.splits)

lemma update_task_row_Inr:
  assumes "update_task_row now t tu db = Inr (t', db')"
  shows "(case TaskUpdate_title tu of Unset \<Rightarrow> Task_title t' = Task_title t
            | Provided v \<Rightarrow> v = Some (Task_title t'))"
    and "(case TaskUpdate_description tu of Unset \<Rightarrow> Task_description t' = Task_description t
            | Provided v \<Rightarrow> Task_description t' = v)"
    and "(case TaskUpdate_status tu of Unset \<Rightarrow> Task_status t' = Task_status t
            | Provided v \<Rightarrow> Task_status t' = v)"
    and "(case TaskUpdate_priority tu of Unset \<Rightarrow> Task_priority t' = Task_priority t
            | Provided v \<Rightarrow> Task_priority t' = v)"
    and "(case TaskUpdate_due_date tu of Unset \<Rightarrow> Task_due_date t' = Task_due_date t
            | Provided v \<Rightarrow> Task_due_date t' = v)"
    and "Task_updated_at t' = now"
    and "Task_id t' = Task_id t" and "Task_created_at t' = Task_created_at t"
    and "Task_owner_id t' = Task_owner_id t"
    and "tasks db' = map (\<lambda>x. if Task_id x = Task_id t then t' else x) (tasks db)"
    and "users db' = users db"
    and "users_auto_increment db' = users_auto_increment db"
    and "tasks_auto_increment db' = tasks_auto_increment db"
proof -
  from update_task_row_Inr_eq[OF assms] obtain ti where
    s: "set_required (TaskUpdate_title tu) (Task_title t) = Inr ti"
    and t': "t' = t\<lparr>Task_title := ti,
                   Task_description := set_nullable (TaskUpdate_description tu) (Task_description t),
                   Task_status := set_nullable (TaskUpdate_status tu) (Task_status t),
                   Task_priority := set_nullable (TaskUpdate_priority tu) (Task_priority t),
                   Task_due_date := set_nullable (TaskUpdate_due_date tu) (Task_due_date t),
                   Task_updated_at := now\<rparr>"
    and db': "db' = db\<lparr>tasks := map (\<lambda>x. if Task_id x = Task_id t then t' else x) (tasks db)\<rparr>"
    by blast
  show "case TaskUpdate_title tu of Unset \<Rightarrow> Task_title t' = Task_title t
            | Provided v \<Rightarrow> v = Some (Task_title t')"
    using s by (auto simp: t' set_required_Inr split: provided.splits)
  show "case TaskUpdate_description tu of Unset \<Rightarrow> Task_description t' = Task_description t
            | Provided v \<Rightarrow> Task_description t' = v"
    and "case TaskUpdate_status tu of Unset \<Rightarrow> Task_status t' = Task_status t
            | Provided v \<Rightarrow> Task_status t' = v"
    and "case TaskUpdate_priority tu of Unset \<Rightarrow> Task_priority t' = Task_priority t
            | Provided v \<Rightarrow> Task_priority t' = v"
    and "case TaskUpdate_due_date tu of Unset \<Rightarrow> Task_due_date t' = Task_due_date t
            | Provided v \<Rightarrow> Task_due_date t' = v"
    by (simp_all add: t' set_nullable_def split: provided.splits)
  show "Task_updated_at t' = now" "Task_id t' = Task_id t"
    "Task_created_at t' = Task_created_at t" "Task_owner_id t' = Task_owner_id t"
    by (simp_all add: t')
  show "tasks db' = map (\<lambda>x. if Task_id x = Task_id t then t' else x) (tasks db)"
    "users db' = users db" "users_auto_increment db' = users_auto_increment db"
    "tasks_auto_increment db' = tasks_auto_increment db"
    by (simp_all add: db')
qed

lemma update_user_empty:
  "update_user_row u no_user_fields db =
     Inr (u, db\<lparr>users := map (\<lambda>x. if User_id x = User_id u then u else x) (users db)\<rparr>)"
  by (simp add: update_user_row_def no_user_fields_def set_required_def set_nullable_def Let_def)

lemma update_task_empty:
  "update_task_row now t no_task_fields db =
     Inr (t\<lparr>Task_updated_at := now\<rparr>,
          db\<lparr>tasks := map (\<lambda>x. if Task_id x = Task_id t then t\<lparr>Task_updated_at := now\<rparr> else x)
                            (tasks db)\<rparr>)"
  by (simp add: update_task_row_def no_task_fields_def set_required_def set_nullable_def Let_def)

lemma read_user_after_update:
  assumes "read_user user_id db = Inr u" and "User_id u' = User_id u"
    and "users db' = map (\<lambda>x. if User_id x = User_id u then u' else x) (users db)"
  shows "read_user user_id db' = Inr u'"
proof -
  from assms(1) have f: "first_row (filter (\<lambda>x. User_id x = user_id) (users db)) = Some u"
    by (simp add: read_user_Inr)
  then have "User_id u = user_id"
    by (auto dest: first_row_filter_Some)
  with assms(2) have "User_id u' = user_id" by simp
  from first_row_filter_map[where key = User_id, OF f this] show ?thesis
    by (simp add: read_user_Inr assms(3))
qed

lemma read_task_after_update:
  assumes "read_task task_id db = Inr t" and "Task_id t' = Task_id t"
    and "tasks db' = map (\<lambda>x. if Task_id x = Task_id t then t' else x) (tasks db)"
  shows "read_task task_id db' = Inr t'"
proof -
  from assms(1) have f: "first_row (filter (\<lambda>x. Task_id x = task_id) (tasks db)) = Some t"
    by (simp add: read_task_Inr)
  then have "Task_id t = task_id"
    by (auto dest: first_row_filter_Some)
  with assms(2) have "Task_id t' = task_id" by simp
  from first_row_filter_map[where key = Task_id, OF f this] show ?thesis
    by (simp add: read_task_Inr assms(3))
qed

lemmas update_defs = update_user_def update_user_row_def update_task_def update_task_row_def
  set_required_def set_nullable_def read_user_def read_task_def Let_def

section \<open>What every run keeps: proofs\<close>

lemma ids_ascending_empty: "ids_ascending empty_store"
  by (simp add: ids_ascending_def empty_store_def)

lemma ids_create_user:
  assumes "ids_ascending db" and "create_user now user db = Inr (r, db')"
  shows "ids_ascending db'"
  using assms
  by (auto simp: create_user_Inr ids_ascending_def sorted_wrt_append)

lemma ids_create_task:
  assumes "ids_ascending db" and "create_task now now' task db = Inr (r, db')"
  shows "ids_ascending db'"
  using assms
  by (auto simp: create_task_Inr ids_ascending_def sorted_wrt_append)

lemma ids_update_user:
  assumes "ids_ascending db" and "update_user user_id uu db = Inr (r, db')"
  shows "ids_ascending db'"
proof -
  from assms(2) obtain u where r: "update_user_row u uu db = Inr (r, db')"
    by (rule update_user_Inr_row)
  note f = update_user_row_Inr[OF r]
  have "map User_id (users db') = map User_id (users db)"
    unfolding f(7) by (rule map_key_replace[where key = User_id, OF f(5)])
  with assms(1) show ?thesis
    by (simp add: ids_ascending_def f(8,9,10))
qed

lemma ids_update_task:
  assumes "ids_ascending db" and "update_task now task_id tu db = Inr (r, db')"
  shows "ids_ascending db'"
proof -
  from assms(2) obtain t where r: "update_task_row now t tu db = Inr (r, db')"
    by (rule update_task_Inr_row)
  note f = update_task_row_Inr[OF r]
  have "map Task_id (tasks db') = map Task_id (tasks db)"
    unfolding f(10) by (rule map_key_replace[where key = Task_id, OF f(7)])
  with assms(1) show ?thesis
    by (simp add: ids_ascending_def f(11,12,13))
qed

lemma ids_delete_user:
  assumes "ids_ascending db" and "delete_user user_id db = Inr (r, db')"
  shows "ids_ascending db'"
  using assms(1) unfolding delete_user_Inr[OF assms(2)] ids_ascending_def
  by (auto simp: sorted_wrt_map_filter)

lemma ids_delete_task:
  assumes "ids_ascending db" and "delete_task task_id db = Inr (r, db')"
  shows "ids_ascending db'"
  using assms(1) unfolding delete_task_Inr[OF assms(2)] ids_ascending_def
  by (auto simp: sorted_wrt_map_filter)

lemma ids_ascending_step:
  assumes "ids_ascending (fst w)"
  shows "ids_ascending (fst (step clock r w))"
proof -
  obtain db k where w: "w = (db, k)" by (cases w)
  from assms have i: "ids_ascending db" by (simp add: w)
  show ?thesis
  proof (cases r)
    case (CreateUser user)
    then show ?thesis
      using i ids_create_user[OF i] by (auto simp: w split: sum.splits)
  next
    case (UpdateUser user_id uu)
    then show ?thesis
      using i ids_update_user[OF i] by (auto simp: w split: sum.splits)
  next
    case (DeleteUser user_id)
    then show ?thesis
      using i ids_delete_user[OF i] by (auto simp: w split: sum.splits)
  next
    case (CreateTask task)
    then show ?thesis
      using i ids_create_task[OF i] by (auto simp: w split: sum.splits)
  next
    case (UpdateTask task_id tu)
    then show ?thesis
      using i ids_update_task[OF i] by (auto simp: w split: sum.splits)
  next
    case (DeleteTask task_id)
    then show ?thesis
      using i ids_delete_task[OF i] by (auto simp: w split: sum.splits)
  qed
qed

lemma ids_ascending_run:
  assumes "ids_ascending (fst w)"
  shows "ids_ascending (fst (run clock rs w))"
  using assms by (induction rs arbitrary: w) (simp_all add: ids_ascending_step)

lemma ids_ascending_reachable: "ids_ascending (reachable clock rs)"
  unfolding reachable_def by (rule ids_ascending_run) (simp add: ids_ascending_empty)

text \<open>
  The ids of each table are distinct in every store a run reaches: the primary keys some of
  the claims below assume.
\<close>

lemma distinct_ids_reachable:
  "distinct (map User_id (users (reachable clock rs)))"
  "distinct (map Task_id (tasks (reachable clock rs)))"
  using ids_ascending_reachable[of clock rs]
  by (simp_all add: ids_ascending_def sorted_wrt_less_distinct)

lemma stamped_create_user:
  assumes m: "mono clock" and s: "stamped_before clock (db, k)"
    and c: "create_user (clock k) user db = Inr (r, db')"
  shows "stamped_before clock (db', Suc k)"
proof -
  from c have u: "users db' = users db @ [r]" and t: "tasks db' = tasks db"
    and r: "User_created_at r = clock k"
    by (simp_all add: create_user_Inr)
  have le: "clock k \<le> clock j" if "Suc k \<le> j" for j
    using m that by (simp add: monoD)
  from s have a: "sorted (map User_created_at (users db))"
    and b: "\<And>c j. c \<in> set (map User_created_at (users db)) \<Longrightarrow> k \<le> j \<Longrightarrow> c \<le> clock j"
    and d: "\<And>x j. x \<in> set (tasks db) \<Longrightarrow>
              Task_created_at x \<le> Task_updated_at x \<and> (k \<le> j \<longrightarrow> Task_updated_at x \<le> clock j)"
    by (auto simp: stamped_before_def)
  have "sorted (map User_created_at (users db'))"
    using a b[of _ k] by (auto simp: u r sorted_append)
  moreover have "\<forall>c \<in> set (map User_created_at (users db')). \<forall>j \<ge> Suc k. c \<le> clock j"
    using b le by (auto simp: u r)
  moreover have "\<forall>x \<in> set (tasks db').
      Task_created_at x \<le> Task_updated_at x \<and> (\<forall>j \<ge> Suc k. Task_updated_at x \<le> clock j)"
    using d by (auto simp: t)
  ultimately show ?thesis
    by (simp add: stamped_before_def)
qed

lemma stamped_create_task:
  assumes m: "mono clock" and s: "stamped_before clock (db, k)"
    and c: "create_task (clock k) (clock (Suc k)) task db = Inr (r, db')"
  shows "stamped_before clock (db', Suc (Suc k))"
proof -
  from c have u: "users db' = users db" and t: "tasks db' = tasks db @ [r]"
    and r: "Task_created_at r = clock k" "Task_updated_at r = clock (Suc k)"
    by (simp_all add: create_task_Inr)
  have le: "clock k \<le> clock (Suc k)" "\<And>j. Suc (Suc k) \<le> j \<Longrightarrow> clock (Suc k) \<le> clock j"
    using m by (simp_all add: monoD)
  from s have a: "sorted (map User_created_at (users db))"
    and b: "\<And>c j. c \<in> set (map User_created_at (users db)) \<Longrightarrow> k \<le> j \<Longrightarrow> c \<le> clock j"
    and d: "\<And>x j. x \<in> set (tasks db) \<Longrightarrow>
              Task_created_at x \<le> Task_updated_at x \<and> (k \<le> j \<longrightarrow> Task_updated_at x \<le> clock j)"
    by (auto simp: stamped_before_def)
  have "\<forall>c \<in> set (map User_created_at (users db')). \<forall>j \<ge> Suc (Suc k). c \<le> clock j"
    using b by (auto simp: u)
  moreover have "\<forall>x \<in> set (tasks db').
      Task_created_at x \<le> Task_updated_at x \<and> (\<forall>j \<ge> Suc (Suc k). Task_updated_at x \<le> clock j)"
    using d le by (auto simp: t r)
  ultimately show ?thesis
    using a by (simp add: stamped_before_def u)
qed

lemma stamped_update_user:
  assumes i: "ids_ascending db" and s: "stamped_before clock (db, k)"
    and c: "update_user user_id uu db = Inr (r, db')"
  shows "stamped_before clock (db', k)"
proof -
  from c obtain u where p: "read_user user_id db = Inr u"
    and r: "update_user_row u uu db = Inr (r, db')"
    by (rule update_user_Inr_row)
  note f = update_user_row_Inr[OF r]
  from i have pk: "distinct (map User_id (users db))"
    by (simp add: ids_ascending_def sorted_wrt_less_distinct)
  from read_user_in_set[OF p] have m: "u \<in> set (users db)" by simp
  have "map User_created_at (users db') = map User_created_at (users db)"
    unfolding f(7) by (rule map_col_replace[where key = User_id, OF pk m f(6)])
  with s show ?thesis
    by (simp add: stamped_before_def f(8))
qed

lemma stamped_update_task:
  assumes m: "mono clock" and s: "stamped_before clock (db, k)"
    and c: "update_task (clock k) task_id tu db = Inr (r, db')"
  shows "stamped_before clock (db', Suc k)"
proof -
  from c obtain t where p: "read_task task_id db = Inr t"
    and r: "update_task_row (clock k) t tu db = Inr (r, db')"
    by (rule update_task_Inr_row)
  note f = update_task_row_Inr[OF r]
  from read_task_in_set[OF p] have t: "t \<in> set (tasks db)" by simp
  have le: "\<And>j. Suc k \<le> j \<Longrightarrow> clock k \<le> clock j"
    using m by (simp add: monoD)
  from s have a: "sorted (map User_created_at (users db))"
    and b: "\<And>c j. c \<in> set (map User_created_at (users db)) \<Longrightarrow> k \<le> j \<Longrightarrow> c \<le> clock j"
    and d: "\<And>x j. x \<in> set (tasks db) \<Longrightarrow>
              Task_created_at x \<le> Task_updated_at x \<and> (k \<le> j \<longrightarrow> Task_updated_at x \<le> clock j)"
    by (auto simp: stamped_before_def)
  have new: "Task_created_at r \<le> Task_updated_at r"
    using d[OF t, of k] by (simp add: f(6) f(8))
  have "\<forall>c \<in> set (map User_created_at (users db')). \<forall>j \<ge> Suc k. c \<le> clock j"
    using b by (auto simp: f(11))
  moreover have "Task_created_at x \<le> Task_updated_at x \<and> (\<forall>j \<ge> Suc k. Task_updated_at x \<le> clock j)"
    if "x \<in> set (tasks db')" for x
  proof -
    from that have "x = r \<or> x \<in> set (tasks db)"
      by (auto simp: f(10) split: if_splits)
    then show ?thesis
      using new le d by (auto simp: f(6))
  qed
  ultimately show ?thesis
    using a by (simp add: stamped_before_def f(11))
qed

lemma stamped_delete_user:
  assumes s: "stamped_before clock (db, k)" and c: "delete_user user_id db = Inr (r, db')"
  shows "stamped_before clock (db', k)"
  using s unfolding delete_user_Inr[OF c] stamped_before_def
  by (auto simp: sorted_wrt_map_filter)

lemma stamped_delete_task:
  assumes s: "stamped_before clock (db, k)" and c: "delete_task task_id db = Inr (r, db')"
  shows "stamped_before clock (db', k)"
  using s unfolding delete_task_Inr[OF c] stamped_before_def
  by auto

lemma stamped_before_later:
  assumes "stamped_before clock (db, k)" and "k \<le> k'"
  shows "stamped_before clock (db, k')"
  using assms by (auto simp: stamped_before_def)

lemma stamped_before_empty: "stamped_before clock (empty_store, 0)"
  by (simp add: stamped_before_def empty_store_def)

lemma stamped_before_step:
  assumes m: "mono clock" and "ids_ascending (fst w)" and "stamped_before clock w"
  shows "stamped_before clock (step clock r w)"
proof -
  obtain db k where w: "w = (db, k)" by (cases w)
  from assms(2,3) have i: "ids_ascending db" and s: "stamped_before clock (db, k)"
    by (simp_all add: w)
  note later = stamped_before_later[OF s after_error_ge]
  show ?thesis
  proof (cases r)
    case (CreateUser user)
    then show ?thesis
      using s later stamped_create_user[OF m s] by (auto simp: w split: sum.splits)
  next
    case (UpdateUser user_id uu)
    then show ?thesis
      using s stamped_update_user[OF i s] by (auto simp: w split: sum.splits)
  next
    case (DeleteUser user_id)
    then show ?thesis
      using s stamped_delete_user[OF s] by (auto simp: w split: sum.splits)
  next
    case (CreateTask task)
    then show ?thesis
      using s later stamped_create_task[OF m s] by (auto simp: w split: sum.splits)
  next
    case (UpdateTask task_id tu)
    then show ?thesis
      using s later stamped_update_task[OF m s] by (auto simp: w split: sum.splits)
  next
    case (DeleteTask task_id)
    then show ?thesis
      using s stamped_delete_task[OF s] by (auto simp: w split: sum.splits)
  qed
qed

lemma stamped_before_run:
  assumes "mono clock" and "ids_ascending (fst w)" and "stamped_before clock w"
  shows "stamped_before clock (run clock rs w)"
  using assms(2,3)
  by (induction rs arbitrary: w)
     (simp_all add: stamped_before_step[OF assms(1)] ids_ascending_step)

lemma stamped_before_reachable:
  assumes "mono clock"
  shows "stamped_before clock (run clock rs (empty_store, 0))"
  by (rule stamped_before_run[OF assms]) (simp_all add: ids_ascending_empty stamped_before_empty)

lemma updated_earlier_empty: "updated_earlier clock (empty_store, 0)"
  by (simp add: updated_earlier_def empty_store_def)

lemma updated_earlier_later:
  assumes "updated_earlier clock (db, k)" and "k \<le> k'" and "set (tasks db') \<subseteq> set (tasks db)"
  shows "updated_earlier clock (db', k')"
  using assms by (fastforce simp: updated_earlier_def)

lemma updated_earlier_create_task:
  assumes m: "strict_mono clock" and s: "updated_earlier clock (db, k)"
    and c: "create_task (clock k) (clock (Suc k)) task db = Inr (r, db')"
  shows "updated_earlier clock (db', Suc (Suc k))"
proof -
  from c have t: "tasks db' = tasks db @ [r]" and r: "Task_updated_at r = clock (Suc k)"
    by (simp_all add: create_task_Inr)
  have "clock (Suc k) < clock j" if "Suc (Suc k) \<le> j" for j
    using m that by (simp add: strict_monoD)
  with s show ?thesis
    by (auto simp: updated_earlier_def t r)
qed

lemma updated_earlier_update_task:
  assumes m: "strict_mono clock" and s: "updated_earlier clock (db, k)"
    and c: "update_task (clock k) task_id tu db = Inr (r, db')"
  shows "updated_earlier clock (db', Suc k)"
proof -
  from c obtain t where r: "update_task_row (clock k) t tu db = Inr (r, db')"
    by (rule update_task_Inr_row)
  note f = update_task_row_Inr[OF r]
  have le: "clock k < clock j" if "Suc k \<le> j" for j
    using m that by (simp add: strict_monoD)
  have "Task_updated_at x < clock j" if "x \<in> set (tasks db')" "Suc k \<le> j" for x j
  proof -
    from that(1) have "x = r \<or> x \<in> set (tasks db)"
      by (auto simp: f(10) split: if_splits)
    then show ?thesis
      using s le[OF that(2)] that(2) by (auto simp: f(6) updated_earlier_def)
  qed
  then show ?thesis
    by (simp add: updated_earlier_def)
qed

lemma updated_earlier_step:
  assumes m: "strict_mono clock" and "updated_earlier clock w"
  shows "updated_earlier clock (step clock r w)"
proof -
  obtain db k where w: "w = (db, k)" by (cases w)
  from assms(2) have s: "updated_earlier clock (db, k)"
    by (simp add: w)
  note same = updated_earlier_later[OF s after_error_ge subset_refl]
  show ?thesis
  proof (cases r)
    case (CreateUser user)
    have "updated_earlier clock (db', Suc k)" if "create_user (clock k) user db = Inr (u, db')"
      for u db'
      using that by (intro updated_earlier_later[OF s]) (simp_all add: create_user_Inr)
    with CreateUser same show ?thesis
      by (auto simp: w split: sum.splits)
  next
    case (UpdateUser user_id uu)
    have "updated_earlier clock (db', k)" if "update_user user_id uu db = Inr (u, db')" for u db'
    proof -
      from that obtain u0 where "update_user_row u0 uu db = Inr (u, db')"
        by (rule update_user_Inr_row)
      from update_user_row_Inr(8)[OF this] show ?thesis
        by (intro updated_earlier_later[OF s]) simp_all
    qed
    with UpdateUser s show ?thesis
      by (auto simp: w split: sum.splits)
  next
    case (DeleteUser user_id)
    have "updated_earlier clock (db', k)" if "delete_user user_id db = Inr (x, db')" for x db'
      unfolding delete_user_Inr[OF that] by (intro updated_earlier_later[OF s]) auto
    with DeleteUser s show ?thesis
      by (auto simp: w split: sum.splits)
  next
    case (CreateTask task)
    with same updated_earlier_create_task[OF m s] show ?thesis
      by (auto simp: w split: sum.splits)
  next
    case (UpdateTask task_id tu)
    with same updated_earlier_update_task[OF m s] show ?thesis
      by (auto simp: w split: sum.splits)
  next
    case (DeleteTask task_id)
    have "updated_earlier clock (db', k)" if "delete_task task_id db = Inr (x, db')" for x db'
      unfolding delete_task_Inr[OF that] by (intro updated_earlier_later[OF s]) auto
    with DeleteTask s show ?thesis
      by (auto simp: w split: sum.splits)
  qed
qed

lemma updated_earlier_run:
  assumes "strict_mono clock" and "updated_earlier clock w"
  shows "updated_earlier clock (run clock rs w)"
  using assms(2) by (induction rs arbitrary: w) (simp_all add: updated_earlier_step[OF assms(1)])

lemma update_task_advances:
  assumes "strict_mono clock" and "run clock rs (empty_store, 0) = (db, k)"
    and "read_task task_id db = Inr t"
    and "update_task (clock k) task_id tu db = Inr (t', db')"
  shows "Task_updated_at t < Task_updated_at t'"
proof -
  from updated_earlier_run[OF assms(1) updated_earlier_empty, of rs]
  have "updated_earlier clock (db, k)"
    by (simp add: assms(2))
  moreover from assms(3) have "t \<in> set (tasks db)"
    by (simp add: read_task_in_set)
  ultimately have "Task_updated_at t < clock k"
    by (auto simp: updated_earlier_def)
  moreover from assms(4) have "update_task_row (clock k) t tu db = Inr (t', db')"
    by (simp add: update_task_present[OF assms(3)])
  then have "Task_updated_at t' = clock k"
    by (rule update_task_row_Inr(6))
  ultimately show ?thesis by simp
qed

section \<open>The example states are reachable\<close>

text \<open>The stores used as examples below are results of runs from the empty store.\<close>

lemma mono_ticks: "mono ticks"
  by (simp add: mono_def ticks_def)

lemma strict_mono_ticks: "strict_mono ticks"
  by (simp add: strict_mono_def ticks_def)

lemma run_alice_store:
  "run ticks [CreateUser alice, CreateTask write_spec] (empty_store, 0) = (alice_store, 3)"
  by code_simp

lemma reachable_alice_store: "reachable ticks [CreateUser alice, CreateTask write_spec] = alice_store"
  by code_simp


lemma reachable_completed:
  "reachable ticks [CreateUser alice, CreateTask write_spec, UpdateTask 1 complete]
     = alice_store\<lparr>tasks := [write_spec_row\<lparr>Task_status := Some ''completed'',
                                             Task_updated_at := 3\<rparr>]\<rparr>"
  by code_simp

lemma reachable_three_tasks:
  "reachable ticks
     [CreateUser alice, CreateTask write_spec, CreateUser bob,
      CreateTask (review_task\<lparr>TaskCreate_priority := Provided (Some ''high'')\<rparr>),
      CreateTask \<lparr>TaskCreate_title = ''Deploy'', TaskCreate_description = Unset,
                   TaskCreate_status = Provided (Some ''completed''),
                   TaskCreate_priority = Provided None,
                   TaskCreate_due_date = Provided (Some 20), TaskCreate_owner_id = 2\<rparr>,
      UpdateTask 2 complete]
   = three_tasks"
  by code_simp

section \<open>C1: DeleteUser cascades\<close>

text \<open>
  Claim C1. For an id no stored user has, \<^verbatim>\<open>delete_user\<close> fails with
  \<^verbatim>\<open>HTTPException(404)\<close> and the store stays as it was. For the id of a stored user the
  handler always succeeds, and the one store it commits has lost both the user and every task
  whose \<^verbatim>\<open>owner_id\<close> is that id: there is no outcome with only one of the two deletions.
  Afterwards \<^verbatim>\<open>read_user\<close> of the id fails with 404, and so does \<^verbatim>\<open>read_task\<close> of every
  task the user owned (task ids being a primary key).
\<close>

theorem delete_user_cascade:
  "(read_user user_id db = Inl e \<longrightarrow>
      delete_user user_id db = Inl (HTTPException 404 ''User not found'')
      \<and> step clock (DeleteUser user_id) (db, k) = (db, k))
   \<and> (read_user user_id db = Inr u \<longrightarrow>
      delete_user user_id db =
        Inr (''User deleted successfully'',
             db\<lparr>tasks := filter (\<lambda>t. Task_owner_id t \<noteq> user_id) (tasks db),
                users := filter (\<lambda>x. User_id x \<noteq> user_id) (users db)\<rparr>)
      \<and> step clock (DeleteUser user_id) (db, k) =
          (db\<lparr>tasks := filter (\<lambda>t. Task_owner_id t \<noteq> user_id) (tasks db),
              users := filter (\<lambda>x. User_id x \<noteq> user_id) (users db)\<rparr>, k)
      \<and> read_user user_id
            (db\<lparr>tasks := filter (\<lambda>t. Task_owner_id t \<noteq> user_id) (tasks db),
                users := filter (\<lambda>x. User_id x \<noteq> user_id) (users db)\<rparr>)
          = Inl (HTTPException 404 ''User not found'')
      \<and> (distinct (map Task_id (tasks db)) \<longrightarrow>
          (\<forall>t \<in> set (tasks db). Task_owner_id t = user_id \<longrightarrow>
             read_task (Task_id t)
               (db\<lparr>tasks := filter (\<lambda>t. Task_owner_id t \<noteq> user_id) (tasks db),
                   users := filter (\<lambda>x. User_id x \<noteq> user_id) (users db)\<rparr>)
             = Inl (HTTPException 404 ''Task not found''))))"
proof (intro conjI impI ballI)
  assume "read_user user_id db = Inl e"
  then have a: "\<forall>u \<in> set (users db). User_id u \<noteq> user_id"
    by (simp add: read_user_Inl)
  show "delete_user user_id db = Inl (HTTPException 404 ''User not found'')"
    by (rule delete_user_absent[OF a])
  then show "step clock (DeleteUser user_id) (db, k) = (db, k)"
    by simp
next
  let ?db' = "db\<lparr>tasks := filter (\<lambda>t. Task_owner_id t \<noteq> user_id) (tasks db),
                users := filter (\<lambda>x. User_id x \<noteq> user_id) (users db)\<rparr>"
  assume p: "read_user user_id db = Inr u"
  show d: "delete_user user_id db = Inr (''User deleted successfully'', ?db')"
    by (rule delete_user_present[OF p])
  then show "step clock (DeleteUser user_id) (db, k) = (?db', k)"
    by simp
  show "read_user user_id ?db' = Inl (HTTPException 404 ''User not found'')"
    by (simp add: read_user_Inl)
next
  let ?db' = "db\<lparr>tasks := filter (\<lambda>t. Task_owner_id t \<noteq> user_id) (tasks db),
                users := filter (\<lambda>x. User_id x \<noteq> user_id) (users db)\<rparr>"
  fix t
  assume pk: "distinct (map Task_id (tasks db))"
    and t: "t \<in> set (tasks db)" and o: "Task_owner_id t = user_id"
  have "Task_id t' \<noteq> Task_id t" if "t' \<in> set (tasks db)" "Task_owner_id t' \<noteq> user_id" for t'
    using key_eq_of_distinct[OF pk that(1) t] that(2) o by auto
  then show "read_task (Task_id t) ?db' = Inl (HTTPException 404 ''Task not found'')"
    by (simp add: read_task_Inl)
qed

theorem delete_user_cascade_witness:
  "read_user 1 alice_store = Inr alice_row
   \<and> delete_user 1 alice_store =
       Inr (''User deleted successfully'',
            \<lparr>users = [], tasks = [], users_auto_increment = 2, tasks_auto_increment = 2\<rparr>)
   \<and> read_user 1 \<lparr>users = [], tasks = [], users_auto_increment = 2, tasks_auto_increment = 2\<rparr>
       = Inl (HTTPException 404 ''User not found'')
   \<and> distinct (map Task_id (tasks alice_store))
   \<and> write_spec_row \<in> set (tasks alice_store)
   \<and> Task_owner_id write_spec_row = 1
   \<and> read_task (Task_id write_spec_row)
        \<lparr>users = [], tasks = [], users_auto_increment = 2, tasks_auto_increment = 2\<rparr>
       = Inl (HTTPException 404 ''Task not found'')
   \<and> read_user 2 alice_store = Inl (HTTPException 404 ''User not found'')
   \<and> delete_user 2 alice_store = Inl (HTTPException 404 ''User not found'')
   \<and> step ticks (DeleteUser 2) (alice_store, 3) = (alice_store, 3)"
proof -
  note t = delete_user_cascade
  let ?db' = "alice_store\<lparr>tasks := filter (\<lambda>t. Task_owner_id t \<noteq> 1) (tasks alice_store),
                users := filter (\<lambda>x. User_id x \<noteq> 1) (users alice_store)\<rparr>"
  have e: "?db' = \<lparr>users = [], tasks = [], users_auto_increment = 2, tasks_auto_increment = 2\<rparr>"
    by (simp add: example_defs)
  have p: "read_user 1 alice_store = Inr alice_row"
    by (simp add: read_user_def example_defs)
  have a: "read_user 2 alice_store = Inl (HTTPException 404 ''User not found'')"
    by (simp add: read_user_def example_defs)
  have pk: "distinct (map Task_id (tasks alice_store))"
    by (simp add: example_defs)
  have m: "write_spec_row \<in> set (tasks alice_store)" "Task_owner_id write_spec_row = 1"
    by (simp_all add: example_defs)
  from t[where user_id = 1 and db = alice_store and u = alice_row and clock = ticks and k = 0,
      THEN conjunct2, rule_format, OF p]
  have "delete_user 1 alice_store = Inr (''User deleted successfully'', ?db')"
    and "read_user 1 ?db' = Inl (HTTPException 404 ''User not found'')"
    and "read_task (Task_id write_spec_row) ?db' = Inl (HTTPException 404 ''Task not found'')"
    using pk m by blast+
  moreover
  from t[where user_id = 2 and db = alice_store and clock = ticks and k = 3,
      THEN conjunct1, rule_format, OF a]
  have "delete_user 2 alice_store = Inl (HTTPException 404 ''User not found'')"
    and "step ticks (DeleteUser 2) (alice_store, 3) = (alice_store, 3)"
    by blast+
  ultimately show ?thesis
    using p a pk m by (simp only: e simp_thms)
qed

section \<open>C2: CreateUser and the uniqueness of username and email\<close>

text \<open>
  Claim C2. \<^verbatim>\<open>create_user\<close> fails exactly when some stored user has the requested
  username or the requested email, and then with \<^verbatim>\<open>HTTPException(400)\<close> and an unchanged
  store; otherwise it appends exactly one row, whose id is the store's next id, whose
  \<^verbatim>\<open>created_at\<close> is the clock reading and whose \<^verbatim>\<open>is_active\<close> is true, and changes
  nothing else but the id counter. In a store a run reaches, that next id is above the id of
  every stored user.
\<close>

theorem create_user_conflict_or_insert:
  "(create_user now user db = Inl e \<longleftrightarrow>
      (\<exists>u \<in> set (users db). User_username u = UserCreate_username user
                              \<or> User_email u = UserCreate_email user)
      \<and> e = HTTPException 400 ''Username or email already registered'')
   \<and> (create_user now user db = Inr (row, db') \<longleftrightarrow>
      \<not> (\<exists>u \<in> set (users db). User_username u = UserCreate_username user
                                \<or> User_email u = UserCreate_email user)
      \<and> row = \<lparr>User_id = users_auto_increment db,
                 User_username = UserCreate_username user,
                 User_email = UserCreate_email user,
                 User_full_name = UserCreate_full_name user,
                 User_created_at = now,
                 User_is_active = Some True\<rparr>
      \<and> db' = db\<lparr>users := users db @ [row],
                   users_auto_increment := users_auto_increment db + 1\<rparr>)
   \<and> ((\<exists>u \<in> set (users db). User_username u = UserCreate_username user
                              \<or> User_email u = UserCreate_email user) \<longrightarrow>
      step clock (CreateUser user) (db, k) = (db, k))
   \<and> (db = reachable clock rs \<longrightarrow>
      (\<forall>u \<in> set (users db). User_id u < users_auto_increment db))"
proof (intro conjI impI)
  show "create_user now user db = Inl e \<longleftrightarrow>
      (\<exists>u \<in> set (users db). User_username u = UserCreate_username user
                              \<or> User_email u = UserCreate_email user)
      \<and> e = HTTPException 400 ''Username or email already registered''"
    by (rule create_user_Inl)
  show "create_user now user db = Inr (row, db') \<longleftrightarrow>
      \<not> (\<exists>u \<in> set (users db). User_username u = UserCreate_username user
                                \<or> User_email u = UserCreate_email user)
      \<and> row = \<lparr>User_id = users_auto_increment db,
                 User_username = UserCreate_username user,
                 User_email = UserCreate_email user,
                 User_full_name = UserCreate_full_name user,
                 User_created_at = now,
                 User_is_active = Some True\<rparr>
      \<and> db' = db\<lparr>users := users db @ [row],
                   users_auto_increment := users_auto_increment db + 1\<rparr>"
    by (rule create_user_Inr)
  assume "\<exists>u \<in> set (users db). User_username u = UserCreate_username user
                              \<or> User_email u = UserCreate_email user"
  then have "create_user (clock k) user db
               = Inl (HTTPException 400 ''Username or email already registered'')"
    by (simp add: create_user_Inl)
  then show "step clock (CreateUser user) (db, k) = (db, k)"
    by simp
next
  assume "db = reachable clock rs"
  with ids_ascending_reachable[of clock rs]
  show "\<forall>u \<in> set (users db). User_id u < users_auto_increment db"
    by (simp add: ids_ascending_def)
qed

theorem create_user_conflict_or_insert_witness:
  "create_user 7 alice alice_store
     = Inl (HTTPException 400 ''Username or email already registered'')
   \<and> step ticks (CreateUser alice) (alice_store, 3) = (alice_store, 3)
   \<and> create_user 7 bob alice_store =
       Inr (\<lparr>User_id = 2, User_username = ''bob'', User_email = ''bob@x.com'',
             User_full_name = ''Bob B'', User_created_at = 7, User_is_active = Some True\<rparr>,
            \<lparr>users = [alice_row,
                      \<lparr>User_id = 2, User_username = ''bob'', User_email = ''bob@x.com'',
                         User_full_name = ''Bob B'', User_created_at = 7,
                         User_is_active = Some True\<rparr>],
              tasks = [write_spec_row], users_auto_increment = 3, tasks_auto_increment = 2\<rparr>)
   \<and> alice_store = reachable ticks [CreateUser alice, CreateTask write_spec]
   \<and> User_id alice_row < users_auto_increment alice_store"
proof -
  note t = create_user_conflict_or_insert
  let ?row = "\<lparr>User_id = 2, User_username = ''bob'', User_email = ''bob@x.com'',
             User_full_name = ''Bob B'', User_created_at = 7, User_is_active = Some True\<rparr>"
  let ?db' = "\<lparr>users = [alice_row, ?row], tasks = [write_spec_row],
              users_auto_increment = 3, tasks_auto_increment = 2\<rparr>"
  have c: "\<exists>u \<in> set (users alice_store). User_username u = UserCreate_username alice
                              \<or> User_email u = UserCreate_email alice"
    by (simp add: example_defs)
  have n: "\<not> (\<exists>u \<in> set (users alice_store). User_username u = UserCreate_username bob
                              \<or> User_email u = UserCreate_email bob)"
    by (simp add: example_defs)
  have r: "alice_store = reachable ticks [CreateUser alice, CreateTask write_spec]"
    by (simp add: reachable_alice_store)
  have "create_user 7 alice alice_store
          = Inl (HTTPException 400 ''Username or email already registered'')"
    using t[where now = 7 and user = alice and db = alice_store] c by blast
  moreover have "step ticks (CreateUser alice) (alice_store, 3) = (alice_store, 3)"
    using t[where user = alice and db = alice_store and clock = ticks and k = 3] c by blast
  moreover have "create_user 7 bob alice_store = Inr (?row, ?db')"
    using t[where now = 7 and user = bob and db = alice_store and row = ?row and db' = ?db'] n
    by (simp add: example_defs)
  moreover have "User_id alice_row < users_auto_increment alice_store"
  proof -
    have m: "alice_row \<in> set (users alice_store)"
      by (simp add: alice_store_def)
    from t[where db = alice_store and clock = ticks
          and rs = "[CreateUser alice, CreateTask write_spec]"] r m
    show ?thesis by blast
  qed
  ultimately show ?thesis
    using r by simp
qed

section \<open>C3: partial updates\<close>

text \<open>
  Claim C3, as the code has it. When \<^verbatim>\<open>update_user\<close> or \<^verbatim>\<open>update_task\<close> succeeds on a stored row, every field
  absent from the request keeps its value and every field present takes the value of the
  request; the stored row is the returned one. A request with no field at all always
  succeeds: it returns the user as it was (and, ids being a primary key, the store as it
  was), and the task as it was but for \<^verbatim>\<open>updated_at\<close>, which becomes the clock reading.
  Whether that advances \<^verbatim>\<open>updated_at\<close> is the clock's doing: on a run of the service whose
  clock readings strictly increase, the reading is later than the \<^verbatim>\<open>updated_at\<close> the task
  had, so every successful \<^verbatim>\<open>update_task\<close> advances it, whatever the request holds.
\<close>

theorem partial_update_frame:
  "(read_user user_id db = Inr u \<longrightarrow>
      (update_user user_id uu db = Inr (u', db') \<longrightarrow>
         (case UserUpdate_username uu of Unset \<Rightarrow> User_username u' = User_username u
            | Provided v \<Rightarrow> v = Some (User_username u'))
         \<and> (case UserUpdate_email uu of Unset \<Rightarrow> User_email u' = User_email u
            | Provided v \<Rightarrow> v = Some (User_email u'))
         \<and> (case UserUpdate_full_name uu of Unset \<Rightarrow> User_full_name u' = User_full_name u
            | Provided v \<Rightarrow> v = Some (User_full_name u'))
         \<and> (case UserUpdate_is_active uu of Unset \<Rightarrow> User_is_active u' = User_is_active u
            | Provided v \<Rightarrow> User_is_active u' = v)
         \<and> read_user user_id db' = Inr u')
      \<and> (\<exists>db0. update_user user_id no_user_fields db = Inr (u, db0)
            \<and> read_user user_id db0 = Inr u
            \<and> (distinct (map User_id (users db)) \<longrightarrow> db0 = db)))
   \<and> (read_task task_id db = Inr t \<longrightarrow>
      (update_task now task_id tu db = Inr (t', db') \<longrightarrow>
         (case TaskUpdate_title tu of Unset \<Rightarrow> Task_title t' = Task_title t
            | Provided v \<Rightarrow> v = Some (Task_title t'))
         \<and> (case TaskUpdate_description tu of Unset \<Rightarrow> Task_description t' = Task_description t
            | Provided v \<Rightarrow> Task_description t' = v)
         \<and> (case TaskUpdate_status tu of Unset \<Rightarrow> Task_status t' = Task_status t
            | Provided v \<Rightarrow> Task_status t' = v)
         \<and> (case TaskUpdate_priority tu of Unset \<Rightarrow> Task_priority t' = Task_priority t
            | Provided v \<Rightarrow> Task_priority t' = v)
         \<and> (case TaskUpdate_due_date tu of Unset \<Rightarrow> Task_due_date t' = Task_due_date t
            | Provided v \<Rightarrow> Task_due_date t' = v)
         \<and> Task_updated_at t' = now
         \<and> read_task task_id db' = Inr t')
      \<and> (\<exists>db0. update_task now task_id no_task_fields db
                    = Inr (t\<lparr>Task_updated_at := now\<rparr>, db0)
            \<and> read_task task_id db0 = Inr (t\<lparr>Task_updated_at := now\<rparr>))
      \<and> (strict_mono clock \<longrightarrow> run clock rs (empty_store, 0) = (db, k) \<longrightarrow>
          update_task (clock k) task_id tu db = Inr (t', db') \<longrightarrow>
          Task_updated_at t < Task_updated_at t'))"
proof (intro conjI impI)
  assume p: "read_user user_id db = Inr u"
  {
    assume "update_user user_id uu db = Inr (u', db')"
    then have r: "update_user_row u uu db = Inr (u', db')"
      by (simp add: update_user_present[OF p])
    note f = update_user_row_Inr[OF r]
    show "case UserUpdate_username uu of Unset \<Rightarrow> User_username u' = User_username u
            | Provided v \<Rightarrow> v = Some (User_username u')" by (rule f(1))
    show "case UserUpdate_email uu of Unset \<Rightarrow> User_email u' = User_email u
            | Provided v \<Rightarrow> v = Some (User_email u')" by (rule f(2))
    show "case UserUpdate_full_name uu of Unset \<Rightarrow> User_full_name u' = User_full_name u
            | Provided v \<Rightarrow> v = Some (User_full_name u')" by (rule f(3))
    show "case UserUpdate_is_active uu of Unset \<Rightarrow> User_is_active u' = User_is_active u
            | Provided v \<Rightarrow> User_is_active u' = v" by (rule f(4))
    show "read_user user_id db' = Inr u'"
      by (rule read_user_after_update[OF p f(5) f(7)])
  }
  let ?db0 = "db\<lparr>users := map (\<lambda>x. if User_id x = User_id u then u else x) (users db)\<rparr>"
  have "update_user user_id no_user_fields db = Inr (u, ?db0)"
    by (simp add: update_user_present[OF p] update_user_empty)
  moreover have "read_user user_id ?db0 = Inr u"
    by (rule read_user_after_update[OF p]) simp_all
  moreover have "distinct (map User_id (users db)) \<longrightarrow> ?db0 = db"
  proof
    assume "distinct (map User_id (users db))"
    then have "map (\<lambda>x. if User_id x = User_id u then u else x) (users db) = users db"
      using read_user_in_set[OF p] by (intro map_replace_same_key) auto
    then show "?db0 = db" by simp
  qed
  ultimately show "\<exists>db0. update_user user_id no_user_fields db = Inr (u, db0)
            \<and> read_user user_id db0 = Inr u
            \<and> (distinct (map User_id (users db)) \<longrightarrow> db0 = db)"
    by blast
next
  assume p: "read_task task_id db = Inr t"
  {
    assume "update_task now task_id tu db = Inr (t', db')"
    then have r: "update_task_row now t tu db = Inr (t', db')"
      by (simp add: update_task_present[OF p])
    note f = update_task_row_Inr[OF r]
    show "case TaskUpdate_title tu of Unset \<Rightarrow> Task_title t' = Task_title t
            | Provided v \<Rightarrow> v = Some (Task_title t')" by (rule f(1))
    show "case TaskUpdate_description tu of Unset \<Rightarrow> Task_description t' = Task_description t
            | Provided v \<Rightarrow> Task_description t' = v" by (rule f(2))
    show "case TaskUpdate_status tu of Unset \<Rightarrow> Task_status t' = Task_status t
            | Provided v \<Rightarrow> Task_status t' = v" by (rule f(3))
    show "case TaskUpdate_priority tu of Unset \<Rightarrow> Task_priority t' = Task_priority t
            | Provided v \<Rightarrow> Task_priority t' = v" by (rule f(4))
    show "case TaskUpdate_due_date tu of Unset \<Rightarrow> Task_due_date t' = Task_due_date t
            | Provided v \<Rightarrow> Task_due_date t' = v" by (rule f(5))
    show "Task_updated_at t' = now" by (rule f(6))
    show "read_task task_id db' = Inr t'"
      by (rule read_task_after_update[OF p f(7) f(10)])
  }
  let ?t0 = "t\<lparr>Task_updated_at := now\<rparr>"
  let ?db0 = "db\<lparr>tasks := map (\<lambda>x. if Task_id x = Task_id t then ?t0 else x) (tasks db)\<rparr>"
  have "update_task now task_id no_task_fields db = Inr (?t0, ?db0)"
    by (simp add: update_task_present[OF p] update_task_empty)
  moreover have "read_task task_id ?db0 = Inr ?t0"
    by (rule read_task_after_update[OF p]) simp_all
  ultimately show "\<exists>db0. update_task now task_id no_task_fields db = Inr (?t0, db0)
            \<and> read_task task_id db0 = Inr ?t0"
    by blast
  assume "strict_mono clock" and "run clock rs (empty_store, 0) = (db, k)"
    and "update_task (clock k) task_id tu db = Inr (t', db')"
  then show "Task_updated_at t < Task_updated_at t'"
    using p by (intro update_task_advances[where t = t and t' = t']) assumption+
qed

text \<open>
  The claim as stated fails when the clock has not moved on: with a clock of coarse
  resolution, a task created and then updated within one tick keeps its \<^verbatim>\<open>updated_at\<close>;
  the update with no field returns the task and the store exactly as they were.
\<close>

theorem update_task_same_reading_counterexample:
  "mono coarse
   \<and> run coarse [CreateUser alice, CreateTask write_spec] (empty_store, 0) = (coarse_store, 3)
   \<and> read_task 1 coarse_store = Inr coarse_task
   \<and> update_task (coarse 3) 1 no_task_fields coarse_store = Inr (coarse_task, coarse_store)
   \<and> Task_updated_at coarse_task = coarse 3"
proof -
  have "mono coarse"
    by (simp add: mono_def coarse_def div_le_mono)
  moreover
  have "run coarse [CreateUser alice, CreateTask write_spec] (empty_store, 0) = (coarse_store, 3)"
    by code_simp
  moreover have "read_task 1 coarse_store = Inr coarse_task"
    by code_simp
  moreover
  have "update_task (coarse 3) 1 no_task_fields coarse_store = Inr (coarse_task, coarse_store)"
    by code_simp
  moreover have "Task_updated_at coarse_task = coarse 3"
    by code_simp
  ultimately show ?thesis by simp
qed

theorem partial_update_frame_witness:
  "read_user 2 two_users = Inr bob_row
   \<and> update_user 2 deactivate two_users =
       Inr (bob_row\<lparr>User_is_active := Some False\<rparr>,
            two_users\<lparr>users := [alice_row, bob_row\<lparr>User_is_active := Some False\<rparr>]\<rparr>)
   \<and> User_username (bob_row\<lparr>User_is_active := Some False\<rparr>) = User_username bob_row
   \<and> read_user 2 (two_users\<lparr>users := [alice_row, bob_row\<lparr>User_is_active := Some False\<rparr>]\<rparr>)
       = Inr (bob_row\<lparr>User_is_active := Some False\<rparr>)
   \<and> distinct (map User_id (users two_users))
   \<and> update_user 2 no_user_fields two_users = Inr (bob_row, two_users)
   \<and> read_task 1 two_users = Inr write_spec_row
   \<and> update_task 9 1 complete two_users =
       Inr (write_spec_row\<lparr>Task_status := Some ''completed'', Task_updated_at := 9\<rparr>,
            two_users\<lparr>tasks := [write_spec_row\<lparr>Task_status := Some ''completed'',
                                                  Task_updated_at := 9\<rparr>]\<rparr>)
   \<and> Task_priority (write_spec_row\<lparr>Task_status := Some ''completed'', Task_updated_at := 9\<rparr>)
       = Task_priority write_spec_row
   \<and> update_task 9 1 no_task_fields two_users =
       Inr (write_spec_row\<lparr>Task_updated_at := 9\<rparr>,
            two_users\<lparr>tasks := [write_spec_row\<lparr>Task_updated_at := 9\<rparr>]\<rparr>)
   \<and> strict_mono ticks
   \<and> run ticks [CreateUser alice, CreateTask write_spec] (empty_store, 0) = (alice_store, 3)
   \<and> read_task 1 alice_store = Inr write_spec_row
   \<and> update_task (ticks 3) 1 complete alice_store =
       Inr (write_spec_row\<lparr>Task_status := Some ''completed'', Task_updated_at := 3\<rparr>,
            alice_store\<lparr>tasks := [write_spec_row\<lparr>Task_status := Some ''completed'',
                                                    Task_updated_at := 3\<rparr>]\<rparr>)
   \<and> Task_updated_at write_spec_row
       < Task_updated_at (write_spec_row\<lparr>Task_status := Some ''completed'',
                                         Task_updated_at := 3\<rparr>)"
proof -
  note t = partial_update_frame
  let ?u' = "bob_row\<lparr>User_is_active := Some False\<rparr>"
  let ?db' = "two_users\<lparr>users := [alice_row, ?u']\<rparr>"
  let ?t' = "write_spec_row\<lparr>Task_status := Some ''completed'', Task_updated_at := 9\<rparr>"
  let ?db2 = "two_users\<lparr>tasks := [?t']\<rparr>"
  let ?t3 = "write_spec_row\<lparr>Task_status := Some ''completed'', Task_updated_at := 3\<rparr>"
  let ?db3 = "alice_store\<lparr>tasks := [?t3]\<rparr>"
  have p: "read_user 2 two_users = Inr bob_row"
    by (simp add: example_defs read_user_def)
  have q: "read_task 1 two_users = Inr write_spec_row"
    by (simp add: example_defs read_task_def)
  have q3: "read_task 1 alice_store = Inr write_spec_row"
    by (simp add: example_defs read_task_def)
  have s: "update_user 2 deactivate two_users = Inr (?u', ?db')"
    by (simp add: example_defs deactivate_def update_defs)
  have s2: "update_task 9 1 complete two_users = Inr (?t', ?db2)"
    by (simp add: example_defs update_defs)
  have s3: "update_task (ticks 3) 1 complete alice_store = Inr (?t3, ?db3)"
    by (simp add: example_defs update_defs)
  have pk: "distinct (map User_id (users two_users))"
    by (simp add: example_defs)
  note tu = t[where user_id = 2 and db = two_users and u = bob_row and uu = deactivate
        and u' = ?u' and db' = ?db', THEN conjunct1, rule_format, OF p]
  from tu have "User_username ?u' = User_username bob_row" and "read_user 2 ?db' = Inr ?u'"
    using s by (simp_all add: deactivate_def)
  moreover from tu pk have "update_user 2 no_user_fields two_users = Inr (bob_row, two_users)"
    by blast
  moreover
  note tt = t[where task_id = 1 and db = two_users and t = write_spec_row and tu = complete
        and now = 9 and t' = ?t' and db' = ?db2, THEN conjunct2, rule_format, OF q]
  from tt have "Task_priority ?t' = Task_priority write_spec_row"
    using s2 by (simp add: complete_def)
  moreover have "update_task 9 1 no_task_fields two_users =
       Inr (write_spec_row\<lparr>Task_updated_at := 9\<rparr>,
            two_users\<lparr>tasks := [write_spec_row\<lparr>Task_updated_at := 9\<rparr>]\<rparr>)"
    using tt by (simp add: example_defs no_task_fields_def update_defs)
  moreover
  note t3 = t[where task_id = 1 and db = alice_store and t = write_spec_row and tu = complete
        and clock = ticks and k = 3 and rs = "[CreateUser alice, CreateTask write_spec]"
        and t' = ?t3 and db' = ?db3, THEN conjunct2, rule_format, OF q3]
  from t3 strict_mono_ticks run_alice_store s3
  have "Task_updated_at write_spec_row < Task_updated_at ?t3"
    by blast
  ultimately show ?thesis
    using p q q3 s s2 s3 pk strict_mono_ticks run_alice_store by simp
qed

section \<open>C4: CreateTask and its owner\<close>

text \<open>
  Claim C4. \<^verbatim>\<open>create_task\<close> fails exactly when no stored user has the id \<^verbatim>\<open>owner_id\<close>,
  and then with \<^verbatim>\<open>HTTPException(404)\<close> and an unchanged store; otherwise it appends exactly
  one row holding the given title, description, due date and owner, the store's next task
  id and the two clock readings. A status left out of the request is stored as
  \<^verbatim>\<open>"pending"\<close> and a priority left out as \<^verbatim>\<open>"medium"\<close> (as is an explicit \<^verbatim>\<open>null\<close>).
\<close>

theorem create_task_owner_check:
  "(create_task now now' task db = Inl e \<longleftrightarrow>
      \<not> (\<exists>u \<in> set (users db). User_id u = TaskCreate_owner_id task)
      \<and> e = HTTPException 404 ''User not found'')
   \<and> (create_task now now' task db = Inr (row, db') \<longleftrightarrow>
      (\<exists>u \<in> set (users db). User_id u = TaskCreate_owner_id task)
      \<and> row = \<lparr>Task_id = tasks_auto_increment db,
                 Task_title = TaskCreate_title task,
                 Task_description =
                   (case TaskCreate_description task of Unset \<Rightarrow> None | Provided v \<Rightarrow> v),
                 Task_status =
                   (case TaskCreate_status task of
                      Unset \<Rightarrow> Some ''pending''
                    | Provided None \<Rightarrow> Some ''pending''
                    | Provided (Some s) \<Rightarrow> Some s),
                 Task_priority =
                   (case TaskCreate_priority task of
                      Unset \<Rightarrow> Some ''medium''
                    | Provided None \<Rightarrow> Some ''medium''
                    | Provided (Some s) \<Rightarrow> Some s),
                 Task_created_at = now,
                 Task_updated_at = now',
                 Task_due_date =
                   (case TaskCreate_due_date task of Unset \<Rightarrow> None | Provided v \<Rightarrow> v),
                 Task_owner_id = TaskCreate_owner_id task\<rparr>
      \<and> db' = db\<lparr>tasks := tasks db @ [row],
                   tasks_auto_increment := tasks_auto_increment db + 1\<rparr>)
   \<and> (\<not> (\<exists>u \<in> set (users db). User_id u = TaskCreate_owner_id task) \<longrightarrow>
      step clock (CreateTask task) (db, k) = (db, k))"
proof -
  have "step clock (CreateTask task) (db, k) = (db, k)"
    if "\<not> (\<exists>u \<in> set (users db). User_id u = TaskCreate_owner_id task)"
  proof -
    from that have "create_task (clock k) (clock (Suc k)) task db = Inl (HTTPException 404 ''User not found'')"
      by (simp add: create_task_Inl)
    then show ?thesis by simp
  qed
  then show ?thesis
    using create_task_Inl[of now now' task db e] create_task_Inr[of now now' task db row db']
    by blast
qed

theorem create_task_owner_check_witness:
  "create_task 5 6 (write_spec\<lparr>TaskCreate_owner_id := 9\<rparr>) alice_store
     = Inl (HTTPException 404 ''User not found'')
   \<and> step ticks (CreateTask (write_spec\<lparr>TaskCreate_owner_id := 9\<rparr>)) (alice_store, 3)
     = (alice_store, 3)
   \<and> create_task 5 6 review_task alice_store =
       Inr (\<lparr>Task_id = 2, Task_title = ''Review'', Task_description = Some ''second pass'',
             Task_status = Some ''in_progress'', Task_priority = Some ''medium'',
             Task_created_at = 5, Task_updated_at = 6, Task_due_date = None,
             Task_owner_id = 1\<rparr>,
            \<lparr>users = [alice_row],
              tasks = [write_spec_row,
                       \<lparr>Task_id = 2, Task_title = ''Review'',
                          Task_description = Some ''second pass'',
                          Task_status = Some ''in_progress'', Task_priority = Some ''medium'',
                          Task_created_at = 5, Task_updated_at = 6, Task_due_date = None,
                          Task_owner_id = 1\<rparr>],
              users_auto_increment = 2, tasks_auto_increment = 3\<rparr>)"
proof -
  note t = create_task_owner_check
  let ?ghost = "write_spec\<lparr>TaskCreate_owner_id := 9\<rparr>"
  let ?row = "\<lparr>Task_id = 2, Task_title = ''Review'', Task_description = Some ''second pass'',
             Task_status = Some ''in_progress'', Task_priority = Some ''medium'',
             Task_created_at = 5, Task_updated_at = 6, Task_due_date = None,
             Task_owner_id = 1\<rparr>"
  let ?db' = "\<lparr>users = [alice_row], tasks = [write_spec_row, ?row],
              users_auto_increment = 2, tasks_auto_increment = 3\<rparr>"
  have n: "\<not> (\<exists>u \<in> set (users alice_store). User_id u = TaskCreate_owner_id ?ghost)"
    by (simp add: example_defs)
  have y: "\<exists>u \<in> set (users alice_store). User_id u = TaskCreate_owner_id review_task"
    by (simp add: example_defs)
  have "create_task 5 6 ?ghost alice_store = Inl (HTTPException 404 ''User not found'')"
    using t[of 5 6 ?ghost alice_store] n by blast
  moreover have "step ticks (CreateTask ?ghost) (alice_store, 3) = (alice_store, 3)"
    using t[of _ _ ?ghost alice_store] n by blast
  moreover have "create_task 5 6 review_task alice_store = Inr (?row, ?db')"
    using t[of 5 6 review_task alice_store _ ?row ?db'] y
    by (simp add: example_defs)
  ultimately show ?thesis
    by simp
qed

section \<open>C5: the filters of ListTasks\<close>

text \<open>
  Claim C5, as the code has it. The handler tests each filter with \<^verbatim>\<open>if status:\<close>,
  \<^verbatim>\<open>if priority:\<close> and \<^verbatim>\<open>if owner_id:\<close>, so a filter is in force when its value is given and
  is neither the empty string nor 0. For non-negative \<^verbatim>\<open>skip\<close> and \<^verbatim>\<open>limit\<close> the result is
  the page of the tasks that equal every filter in force, in the order the store returns
  them; a filter that is absent, empty or 0 restricts nothing.
\<close>

theorem read_tasks_conjunctive:
  "0 \<le> skip \<Longrightarrow> 0 \<le> limit \<Longrightarrow>
   read_tasks scan skip limit status priority owner_id db =
     Inr (take (nat limit) (drop (nat skip) (scan
       (filter (\<lambda>t. (status = None \<or> status = Some [] \<or> Task_status t = status)
                  \<and> (priority = None \<or> priority = Some [] \<or> Task_priority t = priority)
                  \<and> (owner_id = None \<or> owner_id = Some 0 \<or> Some (Task_owner_id t) = owner_id))
          (tasks db)))))"
proof -
  assume n: "0 \<le> skip" "0 \<le> limit"
  have s: "(if truthy_str c then filter (\<lambda>t. col t = c) rows else rows)
          = filter (\<lambda>t. c = None \<or> c = Some [] \<or> col t = c) rows"
    for c and col :: "Task \<Rightarrow> string option" and rows
    by (cases c) (auto simp: truthy_str_def)
  have i: "(if truthy_int c then filter (\<lambda>t. Some (Task_owner_id t) = c) rows else rows)
          = filter (\<lambda>t. c = None \<or> c = Some 0 \<or> Some (Task_owner_id t) = c) rows"
    for c rows
    by (cases c) (auto simp: truthy_int_def)
  show ?thesis
    unfolding read_tasks_def Let_def s i offset_limit_nonneg[OF n]
    by (simp add: conj_commute conj_left_commute)
qed

text \<open>
  The claim as stated fails on a filter that is present but empty or zero: asked for the
  status \<^verbatim>\<open>""\<close>, or for the owner 0, \<^verbatim>\<open>read_tasks\<close> returns a task whose status is
  \<^verbatim>\<open>"pending"\<close> and whose owner is 1.
\<close>

theorem read_tasks_falsy_filter_counterexample:
  "read_tasks insertion_order 0 100 (Some []) None None alice_store = Inr [write_spec_row]
   \<and> Task_status write_spec_row \<noteq> Some []
   \<and> read_tasks insertion_order 0 100 None None (Some 0) alice_store = Inr [write_spec_row]
   \<and> Task_owner_id write_spec_row \<noteq> 0"
  by (simp add: read_tasks_def offset_limit_def truthy_str_def truthy_int_def insertion_order_def
      example_defs)

theorem read_tasks_conjunctive_witness:
  "(0::int) \<le> 0 \<and> (0::int) \<le> 100
   \<and> read_tasks insertion_order 0 100 (Some ''completed'') None None three_tasks
       = Inr [review_row, deploy_row]
   \<and> read_tasks newest_first 0 100 (Some ''completed'') None None three_tasks
       = Inr [deploy_row, review_row]
   \<and> read_tasks insertion_order 0 100 (Some ''completed'') (Some ''medium'') None three_tasks
       = Inr [deploy_row]
   \<and> read_tasks insertion_order 0 100 None None (Some 1) three_tasks
       = Inr [write_spec_row, review_row]
   \<and> read_tasks insertion_order 1 1 None None None three_tasks = Inr [review_row]"
proof -
  note t = read_tasks_conjunctive
  have "read_tasks insertion_order 0 100 (Some ''completed'') None None three_tasks
          = Inr [review_row, deploy_row]"
    by (subst t) (simp_all add: insertion_order_def example_defs)
  moreover have "read_tasks newest_first 0 100 (Some ''completed'') None None three_tasks
          = Inr [deploy_row, review_row]"
    by (subst t) (simp_all add: newest_first_def example_defs)
  moreover have "read_tasks insertion_order 0 100 (Some ''completed'') (Some ''medium'') None
          three_tasks = Inr [deploy_row]"
    by (subst t) (simp_all add: insertion_order_def example_defs)
  moreover have "read_tasks insertion_order 0 100 None None (Some 1) three_tasks
          = Inr [write_spec_row, review_row]"
    by (subst t) (simp_all add: insertion_order_def example_defs)
  moreover have "read_tasks insertion_order 1 1 None None None three_tasks = Inr [review_row]"
    by (subst t) (simp_all add: insertion_order_def example_defs)
  ultimately show ?thesis by simp
qed

section \<open>C6: a task is never updated before it is created\<close>

text \<open>
  Claim C6, as the code has it. Both timestamps are readings of \<^verbatim>\<open>datetime.utcnow()\<close>, the
  wall clock, so the invariant needs a clock that never runs backwards. With such a clock,
  every task of every store a run of the service reaches has
  \<^verbatim>\<open>updated_at >= created_at\<close>: \<^verbatim>\<open>create_task\<close> reads the clock for \<^verbatim>\<open>created_at\<close> and then for
  \<^verbatim>\<open>updated_at\<close>, \<^verbatim>\<open>update_task\<close> sets \<^verbatim>\<open>updated_at\<close> to a later reading and leaves
  \<^verbatim>\<open>created_at\<close>, and no other request touches either.
\<close>

theorem task_updated_not_before_created:
  "mono clock \<Longrightarrow>
     \<forall>t \<in> set (tasks (reachable clock rs)). Task_created_at t \<le> Task_updated_at t"
proof -
  assume "mono clock"
  then have "stamped_before clock (run clock rs (empty_store, 0))"
    by (rule stamped_before_reachable)
  then show ?thesis
    by (simp add: stamped_before_def reachable_def)
qed

text \<open>
  The claim as stated fails when the clock is set back: a task created at the readings 11
  and 12 and updated after the clock was set back to 6 is stored with \<^verbatim>\<open>updated_at\<close> 6,
  before its \<^verbatim>\<open>created_at\<close> 11.
\<close>

theorem task_updated_before_created_counterexample:
  "tasks (reachable set_back [CreateUser alice, CreateTask write_spec, UpdateTask 1 complete])
     = [set_back_task]
   \<and> Task_updated_at set_back_task < Task_created_at set_back_task
   \<and> set_back 3 < set_back 2"
  by code_simp

theorem task_updated_not_before_created_witness:
  "mono ticks
   \<and> tasks (reachable ticks [CreateUser alice, CreateTask write_spec, UpdateTask 1 complete])
       = [write_spec_row\<lparr>Task_status := Some ''completed'', Task_updated_at := 3\<rparr>]
   \<and> Task_created_at (write_spec_row\<lparr>Task_status := Some ''completed'', Task_updated_at := 3\<rparr>)
       \<le> Task_updated_at (write_spec_row\<lparr>Task_status := Some ''completed'', Task_updated_at := 3\<rparr>)"
proof -
  let ?rs = "[CreateUser alice, CreateTask write_spec, UpdateTask 1 complete]"
  let ?t = "write_spec_row\<lparr>Task_status := Some ''completed'', Task_updated_at := 3\<rparr>"
  have e: "tasks (reachable ticks ?rs) = [?t]"
    by (simp add: reachable_completed)
  from task_updated_not_before_created[OF mono_ticks, of ?rs]
  have "Task_created_at ?t \<le> Task_updated_at ?t"
    unfolding e by simp
  with mono_ticks e show ?thesis by simp
qed

section \<open>C7: UpdateUser makes no uniqueness check\<close>

text \<open>
  Claim C7. On the id of a stored user \<^verbatim>\<open>update_user\<close> goes straight to the \<^verbatim>\<open>UPDATE\<close> of
  the row, whatever username or email the request holds: it raises no \<^verbatim>\<open>HTTPException\<close>
  at all, so no 400. The only \<^verbatim>\<open>HTTPException\<close> the handler raises is the 404 for an id no
  stored user has. (A username or email of another row is refused by the store's unique
  index, as an \<^verbatim>\<open>IntegrityError\<close>.)
\<close>

theorem update_user_no_conflict:
  "(read_user user_id db = Inr u \<longrightarrow>
      update_user user_id uu db = update_user_row u uu db
      \<and> (\<forall>code detail. update_user user_id uu db \<noteq> Inl (HTTPException code detail)))
   \<and> (update_user user_id uu db = Inl (HTTPException code detail) \<longrightarrow>
      code = 404 \<and> detail = ''User not found'' \<and> (\<forall>x \<in> set (users db). User_id x \<noteq> user_id))"
proof (intro conjI impI allI)
  assume p: "read_user user_id db = Inr u"
  show eq: "update_user user_id uu db = update_user_row u uu db"
    by (rule update_user_present[OF p])
  fix code detail
  show "update_user user_id uu db \<noteq> Inl (HTTPException code detail)"
    using update_user_row_error[of u uu db] by (auto simp: eq)
next
  assume f: "update_user user_id uu db = Inl (HTTPException code detail)"
  show "code = 404" "detail = ''User not found''" "\<forall>x \<in> set (users db). User_id x \<noteq> user_id"
    using f update_user_row_error
    by (auto simp: update_user_def first_row_filter_None split: option.splits dest!: first_row_filter_Some)
qed

theorem update_user_no_conflict_witness:
  "read_user 2 two_users = Inr bob_row
   \<and> update_user 2 take_alice_name two_users = Inl IntegrityError
   \<and> update_user 2 take_alice_name two_users = update_user_row bob_row take_alice_name two_users
   \<and> update_user 3 take_alice_name two_users = Inl (HTTPException 404 ''User not found'')"
proof -
  note t = update_user_no_conflict
  have p: "read_user 2 two_users = Inr bob_row"
    by (simp add: example_defs read_user_def)
  have i: "update_user_row bob_row take_alice_name two_users = Inl IntegrityError"
    by (simp add: example_defs take_alice_name_def update_defs)
  have a: "update_user 3 take_alice_name two_users = Inl (HTTPException 404 ''User not found'')"
    by (simp add: example_defs take_alice_name_def update_defs)
  from t[where user_id = 2 and db = two_users and u = bob_row and uu = take_alice_name,
      THEN conjunct1, rule_format, OF p]
  have e: "update_user 2 take_alice_name two_users = update_user_row bob_row take_alice_name two_users"
    by blast
  show ?thesis
    using p e i a by simp
qed

section \<open>C8: the page of ListUsers\<close>




section \<open>C9: GetStats\<close>

text \<open>
  Claim C9. \<^verbatim>\<open>get_stats\<close> returns exactly four counts: the number of rows of \<^verbatim>\<open>users\<close>,
  the number of rows of \<^verbatim>\<open>tasks\<close>, and the numbers of rows of \<^verbatim>\<open>tasks\<close> whose status is
  \<^verbatim>\<open>"pending"\<close> and \<^verbatim>\<open>"completed"\<close>.
\<close>

theorem get_stats_counts:
  "get_stats db =
     \<lparr>total_users = int (card {i. i < length (users db)}),
      total_tasks = int (card {i. i < length (tasks db)}),
      pending_tasks =
        int (card {i. i < length (tasks db) \<and> Task_status (tasks db ! i) = Some ''pending''}),
      completed_tasks =
        int (card {i. i < length (tasks db) \<and> Task_status (tasks db ! i) = Some ''completed''})\<rparr>"
  by (simp add: get_stats_def length_filter_conv_card)

theorem get_stats_counts_witness:
  "get_stats alice_store =
     \<lparr>total_users = 1, total_tasks = 1, pending_tasks = 1, completed_tasks = 0\<rparr>
   \<and> get_stats three_tasks =
     \<lparr>total_users = 2, total_tasks = 3, pending_tasks = 1, completed_tasks = 2\<rparr>
   \<and> card {i. i < length (tasks three_tasks)
              \<and> Task_status (tasks three_tasks ! i) = Some ''completed''} = 2"
proof -
  have a: "get_stats alice_store =
     \<lparr>total_users = 1, total_tasks = 1, pending_tasks = 1, completed_tasks = 0\<rparr>"
    by (simp add: get_stats_def example_defs)
  have b: "get_stats three_tasks =
     \<lparr>total_users = 2, total_tasks = 3, pending_tasks = 1, completed_tasks = 2\<rparr>"
    by (simp add: get_stats_def example_defs)
  have "completed_tasks (get_stats three_tasks) =
          int (card {i. i < length (tasks three_tasks)
                        \<and> Task_status (tasks three_tasks ! i) = Some ''completed''})"
    by (subst get_stats_counts) simp
  then have "card {i. i < length (tasks three_tasks)
              \<and> Task_status (tasks three_tasks ! i) = Some ''completed''} = 2"
    by (simp only: b Stats.select_convs)
  with a b show ?thesis by simp
qed

section \<open>C10: what no update can change\<close>

text \<open>
  Claim C10. \<^verbatim>\<open>UserUpdate\<close> has no field for \<^verbatim>\<open>id\<close> or \<^verbatim>\<open>created_at\<close>, and
  \<^verbatim>\<open>TaskUpdate\<close> none for \<^verbatim>\<open>id\<close>, \<^verbatim>\<open>created_at\<close> or \<^verbatim>\<open>owner_id\<close>: whatever the request
  holds, a successful \<^verbatim>\<open>update_user\<close> returns and stores the user with the id and
  \<^verbatim>\<open>created_at\<close> it had, and a successful \<^verbatim>\<open>update_task\<close> the task with the id,
  \<^verbatim>\<open>created_at\<close> and \<^verbatim>\<open>owner_id\<close> it had; these columns are the same before and after for
  every row of the table (ids being a primary key).
\<close>

theorem update_keeps_identity:
  "(read_user user_id db = Inr u \<longrightarrow> update_user user_id uu db = Inr (u', db') \<longrightarrow>
      User_id u' = User_id u \<and> User_created_at u' = User_created_at u
      \<and> map User_id (users db') = map User_id (users db)
      \<and> (distinct (map User_id (users db)) \<longrightarrow>
          map User_created_at (users db') = map User_created_at (users db)))
   \<and> (read_task task_id db = Inr t \<longrightarrow> update_task now task_id tu db = Inr (t', db') \<longrightarrow>
      Task_id t' = Task_id t \<and> Task_created_at t' = Task_created_at t
      \<and> Task_owner_id t' = Task_owner_id t
      \<and> map Task_id (tasks db') = map Task_id (tasks db)
      \<and> (distinct (map Task_id (tasks db)) \<longrightarrow>
          map Task_created_at (tasks db') = map Task_created_at (tasks db)
          \<and> map Task_owner_id (tasks db') = map Task_owner_id (tasks db)))"
proof (intro conjI impI)
  assume p: "read_user user_id db = Inr u" and s: "update_user user_id uu db = Inr (u', db')"
  from s have r: "update_user_row u uu db = Inr (u', db')"
    by (simp add: update_user_present[OF p])
  note f = update_user_row_Inr[OF r]
  show "User_id u' = User_id u" "User_created_at u' = User_created_at u"
    by (rule f(5), rule f(6))
  show "map User_id (users db') = map User_id (users db)"
    unfolding f(7) by (rule map_key_replace[where key = User_id, OF f(5)])
  assume pk: "distinct (map User_id (users db))"
  from read_user_in_set[OF p] have m: "u \<in> set (users db)" by simp
  show "map User_created_at (users db') = map User_created_at (users db)"
    unfolding f(7) by (rule map_col_replace[where key = User_id, OF pk m f(6)])
next
  assume p: "read_task task_id db = Inr t" and s: "update_task now task_id tu db = Inr (t', db')"
  from s have r: "update_task_row now t tu db = Inr (t', db')"
    by (simp add: update_task_present[OF p])
  note f = update_task_row_Inr[OF r]
  show "Task_id t' = Task_id t" "Task_created_at t' = Task_created_at t"
    "Task_owner_id t' = Task_owner_id t"
    by (rule f(7), rule f(8), rule f(9))
  show "map Task_id (tasks db') = map Task_id (tasks db)"
    unfolding f(10) by (rule map_key_replace[where key = Task_id, OF f(7)])
  assume pk: "distinct (map Task_id (tasks db))"
  from read_task_in_set[OF p] have m: "t \<in> set (tasks db)" by simp
  show "map Task_created_at (tasks db') = map Task_created_at (tasks db)"
    unfolding f(10) by (rule map_col_replace[where key = Task_id, OF pk m f(8)])
  show "map Task_owner_id (tasks db') = map Task_owner_id (tasks db)"
    unfolding f(10) by (rule map_col_replace[where key = Task_id, OF pk m f(9)])
qed

theorem update_keeps_identity_witness:
  "read_user 2 three_tasks = Inr bob_row
   \<and> update_user 2 rename_all three_tasks =
       Inr (\<lparr>User_id = 2, User_username = ''robert'', User_email = ''robert@x.com'',
             User_full_name = ''Robert B'', User_created_at = 3, User_is_active = None\<rparr>,
            three_tasks\<lparr>users := [alice_row,
               \<lparr>User_id = 2, User_username = ''robert'', User_email = ''robert@x.com'',
                  User_full_name = ''Robert B'', User_created_at = 3, User_is_active = None\<rparr>]\<rparr>)
   \<and> distinct (map User_id (users three_tasks))
   \<and> map User_created_at
        (users (three_tasks\<lparr>users := [alice_row,
               \<lparr>User_id = 2, User_username = ''robert'', User_email = ''robert@x.com'',
                  User_full_name = ''Robert B'', User_created_at = 3,
                  User_is_active = None\<rparr>]\<rparr>))
       = map User_created_at (users three_tasks)
   \<and> read_task 3 three_tasks = Inr deploy_row
   \<and> update_task 9 3 rewrite_all three_tasks =
       Inr (\<lparr>Task_id = 3, Task_title = ''Ship'', Task_description = Some ''to production'',
             Task_status = Some ''in_progress'', Task_priority = Some ''low'',
             Task_created_at = 6, Task_updated_at = 9, Task_due_date = None,
             Task_owner_id = 2\<rparr>,
            three_tasks\<lparr>tasks := [write_spec_row, review_row,
               \<lparr>Task_id = 3, Task_title = ''Ship'', Task_description = Some ''to production'',
                  Task_status = Some ''in_progress'', Task_priority = Some ''low'',
                  Task_created_at = 6, Task_updated_at = 9, Task_due_date = None,
                  Task_owner_id = 2\<rparr>]\<rparr>)
   \<and> distinct (map Task_id (tasks three_tasks))
   \<and> map Task_owner_id
        (tasks (three_tasks\<lparr>tasks := [write_spec_row, review_row,
               \<lparr>Task_id = 3, Task_title = ''Ship'', Task_description = Some ''to production'',
                  Task_status = Some ''in_progress'', Task_priority = Some ''low'',
                  Task_created_at = 6, Task_updated_at = 9, Task_due_date = None,
                  Task_owner_id = 2\<rparr>]\<rparr>))
       = map Task_owner_id (tasks three_tasks)"
proof -
  note t = update_keeps_identity
  let ?u' = "\<lparr>User_id = 2, User_username = ''robert'', User_email = ''robert@x.com'',
             User_full_name = ''Robert B'', User_created_at = 3, User_is_active = None\<rparr>"
  let ?t' = "\<lparr>Task_id = 3, Task_title = ''Ship'', Task_description = Some ''to production'',
             Task_status = Some ''in_progress'', Task_priority = Some ''low'',
             Task_created_at = 6, Task_updated_at = 9, Task_due_date = None,
             Task_owner_id = 2\<rparr>"
  let ?db1 = "three_tasks\<lparr>users := [alice_row, ?u']\<rparr>"
  let ?db2 = "three_tasks\<lparr>tasks := [write_spec_row, review_row, ?t']\<rparr>"
  have p: "read_user 2 three_tasks = Inr bob_row"
    by (simp add: example_defs read_user_def)
  have q: "read_task 3 three_tasks = Inr deploy_row"
    by (simp add: example_defs read_task_def)
  have s1: "update_user 2 rename_all three_tasks = Inr (?u', ?db1)"
    by (simp add: example_defs rename_all_def rewrite_all_def update_defs)
  have s2: "update_task 9 3 rewrite_all three_tasks = Inr (?t', ?db2)"
    by (simp add: example_defs rename_all_def rewrite_all_def update_defs)
  have pk: "distinct (map Task_id (tasks three_tasks))"
    and pk': "distinct (map User_id (users three_tasks))"
    by (simp_all add: example_defs)
  from t[where task_id = 3 and db = three_tasks and t = deploy_row and tu = rewrite_all
        and now = 9 and t' = ?t' and db' = ?db2, THEN conjunct2, rule_format, OF q s2] pk
  have "map Task_owner_id (tasks ?db2) = map Task_owner_id (tasks three_tasks)"
    by blast
  moreover
  from t[where user_id = 2 and db = three_tasks and u = bob_row and uu = rename_all
        and u' = ?u' and db' = ?db1, THEN conjunct1, rule_format, OF p s1] pk'
  have "map User_created_at (users ?db1) = map User_created_at (users three_tasks)"
    by blast
  ultimately show ?thesis
    using p q s1 s2 pk pk' by simp
qed

end
